theory Spec2Isabelle
  imports Main
begin

text \<open>
  The failed-payment lifecycle of the dunning backend: the webhook route with its two event
  handlers, the dunning notifier and the recovery endpoint of \<^verbatim>\<open>server/routes.ts\<close>, the
  notification sender of \<^verbatim>\<open>server/email.ts\<close>, and the tables of the schema. A handler is a
  function from the world before a request to the world after it, the world being the four
  tables and the list of the external calls made so far. What a handler cannot decide by
  itself is a parameter of the request: the clock, the environment variables, and the
  answers of the payment processor and of the email provider. Requests are handled one
  after the other; the interleaving of two handlers at their \<^verbatim>\<open>await\<close>s is not modelled.
\<close>

section \<open>The data store\<close>

text \<open>
  The four tables of \<^verbatim>\<open>shared/schema\<close>. A column without \<^verbatim>\<open>notNull()\<close> is nullable and
  is an \<open>option\<close>; a \<^verbatim>\<open>serial\<close> primary key is an \<open>int\<close> drawn from the table's
  sequence; a timestamp is the number of milliseconds since the epoch. Fields carry a
  table prefix because the tables share column names.

  A read returns the first stored row that matches; no query of the routes orders its
  rows, so the row returned is determined only where one row can match, which is the case
  of the lookups by primary key and, in a well-formed table, by payment intent. Where
  several users share a connected account, the properties below speak of the user that
  the lookup returns.

  A write is refused, and the awaited call throws, where the value written does not fit
  its column: \<^verbatim>\<open>null\<close> in a \<^verbatim>\<open>notNull()\<close> column, and a number outside the 32-bit range in
  an \<^verbatim>\<open>integer\<close> column. The routes can write such values in three places, all of them
  in \<^verbatim>\<open>handlePaymentFailed\<close>: the customer of the event, which may be \<^verbatim>\<open>null\<close> and is cast
  to a string, its amount, and the incremented attempt count. A refused statement leaves
  the tables as they are. A number out of range is refused when the statement is bound,
  before it runs; a \<^verbatim>\<open>null\<close> is refused when the row is checked, after the row has drawn
  its key, so the sequence has moved on by one. The loss of the connection to the database
  is not modelled.
\<close>

type_synonym timestamp = int

record user =
  u_id :: int
  u_email :: string
  u_username :: string
  u_password :: string
  u_stripeAccountId :: "string option"
  u_isConnected :: "bool option"
  u_subscriptionStatus :: "string option"
  u_createdAt :: "timestamp option"

record failedPayment =
  fp_id :: int
  fp_userId :: int
  fp_stripePaymentIntentId :: string
  fp_stripeCustomerId :: string
  fp_customerEmail :: string
  fp_amount :: int
  fp_currency :: string
  fp_status :: "string option"
  fp_failureReason :: "string option"
  fp_attemptCount :: "int option"
  fp_nextRetryAt :: "timestamp option"
  fp_createdAt :: "timestamp option"
  fp_recoveredAt :: "timestamp option"

record dunningLog =
  dl_id :: int
  dl_failedPaymentId :: int
  dl_sentAt :: "timestamp option"
  dl_emailTemplate :: string
  dl_status :: "string option"

record emailTemplate =
  tpl_id :: int
  tpl_userId :: int
  tpl_type :: string
  tpl_subject :: string
  tpl_body :: string
  tpl_isEnabled :: "bool option"

text \<open>
  Calls that leave the process: the payment processor's API and the email provider's.
  They are recorded in the order they are made, so that a theorem can say that a path
  makes none.
\<close>

datatype call =
  CustomersRetrieve string
| CustomersUpdate string string
| PaymentIntentsConfirm string
| EmailsSend string string string

record world =
  users :: "user list"
  failedPayments :: "failedPayment list"
  emailTemplates :: "emailTemplate list"
  dunningLogs :: "dunningLog list"
  failedPayments_id_seq :: int
  dunningLogs_id_seq :: int
  calls :: "call list"

section \<open>Events, requests and the outside world\<close>

record paymentIntent =
  pi_id :: string
  pi_on_behalf_of :: "string option"
  pi_receipt_email :: "string option"
  pi_customer :: "string option"
  pi_amount :: int
  pi_currency :: string
  pi_last_payment_error :: "string option option"

record event =
  ev_type :: string
  ev_object :: paymentIntent

text \<open>What \<^verbatim>\<open>stripe.customers.retrieve\<close> can do: throw, or return a deleted or a live customer.\<close>

datatype retrieved = RetrieveThrows string | DeletedCustomer | Customer "string option"

text \<open>
  The environment of one request: the process environment variables that the routes read
  and the answers of the two external services. \<open>constructEvent\<close> is the SDK's signature
  check of (body, signature header, secret): \<open>Inl\<close> is the message of the error it throws.
  For the two mutating processor calls \<open>Some msg\<close> is a thrown error. \<open>emailsSend\<close> is
  \<open>False\<close> when the provider's call throws.
\<close>

record env =
  STRIPE_WEBHOOK_SECRET :: "string option"
  BASE_URL :: "string option"
  constructEvent :: "string \<Rightarrow> string \<Rightarrow> string \<Rightarrow> string + event"
  customersRetrieve :: "string \<Rightarrow> retrieved"
  customersUpdate :: "string \<Rightarrow> string \<Rightarrow> string option"
  paymentIntentsConfirm :: "string \<Rightarrow> string option"
  emailsSend :: "string \<Rightarrow> string \<Rightarrow> string \<Rightarrow> bool"

text \<open>An \<^verbatim>\<open>async\<close> handler either returns or throws; the writes made before a throw stay.\<close>

datatype outcome = Returned world | Threw string world

datatype body =
  Json_received
| Json_success
| Json_error string
| Text string

record response =
  res_status :: nat
  res_body :: body

record webhookRequest =
  stripe_signature :: "string option"
  raw_body :: string

text \<open>JavaScript truthiness of a string that may be \<^verbatim>\<open>null\<close> or \<^verbatim>\<open>undefined\<close>.\<close>

definition truthy :: "string option \<Rightarrow> bool" where
  "truthy s = (case s of None \<Rightarrow> False | Some x \<Rightarrow> x \<noteq> [])"

section \<open>Rendering\<close>

text \<open>Decimal digits of a natural number and of an integer, as template literals print them.\<close>

fun showNat :: "nat \<Rightarrow> string" where
  "showNat n =
     (if n < 10 then [''0123456789'' ! n]
      else showNat (n div 10) @ [''0123456789'' ! (n mod 10)])"

declare showNat.simps [simp del]

definition showInt :: "int \<Rightarrow> string" where
  "showInt i = (if i < 0 then ''-'' @ showNat (nat (- i)) else showNat (nat i))"

text \<open>
  \<^verbatim>\<open>payment.amount / 100\<close> is a division of IEEE 754 doubles, and \<^verbatim>\<open>toFixed\<close> reads
  the exact value of the double it is given. A finite double is a significand times a
  power of two: \<open>Number m k\<close> stands for \<open>m / 2^k\<close>.

  The quotient of two integers is the double nearest to the exact quotient, a tie going
  to the even significand. \<open>scaleUp a b 0\<close> is the exponent that gives the significand
  its 53 bits: the least \<open>k\<close> with \<open>2^52 \<le> (a / b) * 2^k\<close>, searched upwards from 0.
  That is the double for \<open>0 < a / b < 2^53\<close> above the subnormal range, and
  \<open>amount / 100\<close> is in it for every non-zero amount of the 32-bit column.
\<close>

datatype number = Number int nat

definition roundHalfEven :: "int \<Rightarrow> int \<Rightarrow> int" where
  "roundHalfEven n d =
     (let f = n div d; r = n mod d
      in if 2 * r < d then f
         else if d < 2 * r then f + 1
         else if even f then f else f + 1)"

function scaleUp :: "int \<Rightarrow> int \<Rightarrow> nat \<Rightarrow> nat" where
  "scaleUp a b k =
     (if a \<le> 0 \<or> b * 2 ^ 52 \<le> a * 2 ^ k then k else scaleUp a b (Suc k))"
  by pat_completeness auto
termination
proof (relation "measure (\<lambda>(a, b, k). nat (b * 2 ^ 52 - a * 2 ^ k))")
  show "wf (measure (\<lambda>(a, b, k). nat (b * 2 ^ 52 - a * 2 ^ k)))"
    by simp
next
  fix a b :: int and k :: nat
  assume "\<not> (a \<le> 0 \<or> b * 2 ^ 52 \<le> a * 2 ^ k)"
  then have pos: "0 < a" and below: "a * 2 ^ k < b * 2 ^ 52"
    by auto
  have "0 < a * 2 ^ k"
    using pos by simp
  then have "a * 2 ^ k < a * 2 ^ Suc k"
    by simp
  then show "((a, b, Suc k), (a, b, k)) \<in> measure (\<lambda>(a, b, k). nat (b * 2 ^ 52 - a * 2 ^ k))"
    using below by simp
qed

declare scaleUp.simps [simp del]

definition divide_number :: "int \<Rightarrow> int \<Rightarrow> number" where
  "divide_number a b =
     (if a = 0 then Number 0 0
      else let k = scaleUp \<bar>a\<bar> \<bar>b\<bar> 0;
               m = roundHalfEven (\<bar>a\<bar> * 2 ^ k) \<bar>b\<bar>
           in Number ((if (a < 0) = (b < 0) then 1 else - 1) * m) k)"

text \<open>
  \<^verbatim>\<open>Number.prototype.toFixed(2)\<close> for \<open>\<bar>x\<bar> < 10^21\<close>: the integer \<open>n\<close> for which
  \<open>n / 100 - \<bar>x\<bar>\<close> is closest to zero, the larger one on a tie, which is the floor of
  \<open>100 * \<bar>x\<bar> + 1/2\<close>; then its digits, padded with zeros to three at least, with the
  point in front of the last two, and the sign in front of all.
\<close>

definition toFixed2 :: "number \<Rightarrow> string" where
  "toFixed2 x =
     (case x of Number m k \<Rightarrow>
        let s = (if m < 0 then ''-'' else '''');
            n = nat ((200 * \<bar>m\<bar> + 2 ^ k) div 2 ^ Suc k);
            digits = showNat n;
            padded = replicate (3 - length digits) (CHR ''0'') @ digits
        in s @ take (length padded - 2) padded @ ''.'' @ drop (length padded - 2) padded)"

text \<open>
  \<^verbatim>\<open>String.prototype.replace\<close> with a global regular expression that matches one literal,
  non-empty text and has no capture group. The replacement is a string, so its \<^verbatim>\<open>$\<close>
  patterns are expanded for each match: \<^verbatim>\<open>$$\<close> is a dollar sign, \<^verbatim>\<open>$&\<close> the match, and
  the backquote and the quote forms are the text before and after the match; a \<^verbatim>\<open>$\<close>
  followed by anything else, a digit too since there is no group, stands for itself.
\<close>

fun getSubstitution :: "string \<Rightarrow> string \<Rightarrow> string \<Rightarrow> string \<Rightarrow> string" where
  "getSubstitution matched preceding following (c # d # rest) =
     (if c = CHR ''$'' \<and> d = CHR ''$'' then CHR ''$'' # getSubstitution matched preceding following rest
      else if c = CHR ''$'' \<and> d = CHR ''&'' then matched @ getSubstitution matched preceding following rest
      else if c = CHR ''$'' \<and> d = CHR 0x60 then preceding @ getSubstitution matched preceding following rest
      else if c = CHR ''$'' \<and> d = CHR 0x27 then following @ getSubstitution matched preceding following rest
      else c # getSubstitution matched preceding following (d # rest))"
| "getSubstitution matched preceding following rest = rest"

fun replaceFrom :: "string \<Rightarrow> string \<Rightarrow> string \<Rightarrow> nat \<Rightarrow> nat \<Rightarrow> string \<Rightarrow> string" where
  "replaceFrom pat repl whole pos skip [] = []"
| "replaceFrom pat repl whole pos skip (c # cs) =
     (if 0 < skip then replaceFrom pat repl whole (Suc pos) (skip - 1) cs
      else if take (length pat) (c # cs) = pat
      then getSubstitution pat (take pos whole) (drop (pos + length pat) whole) repl
           @ replaceFrom pat repl whole (Suc pos) (length pat - 1) cs
      else c # replaceFrom pat repl whole (Suc pos) 0 cs)"

definition replace_g :: "string \<Rightarrow> string \<Rightarrow> string \<Rightarrow> string" where
  "replace_g pat repl s = replaceFrom pat repl s 0 0 s"

text \<open>A template literal prints an undefined environment variable as \<^verbatim>\<open>undefined\<close>.\<close>

definition interpolate :: "string option \<Rightarrow> string" where
  "interpolate v = (case v of None \<Rightarrow> ''undefined'' | Some s \<Rightarrow> s)"

definition amountText :: "int \<Rightarrow> string" where
  "amountText amount = ''$'' @ toFixed2 (divide_number amount 100)"

definition renderBody :: "string \<Rightarrow> string \<Rightarrow> int \<Rightarrow> string \<Rightarrow> string" where
  "renderBody template_body updateLink amount customerEmail =
     replace_g ''{{customerEmail}}'' customerEmail
       (replace_g ''{{amount}}'' (amountText amount)
          (replace_g ''{{updateLink}}'' updateLink template_body))"

section \<open>The notification sender (\<^verbatim>\<open>server/email.ts\<close>)\<close>

text \<open>
  \<^verbatim>\<open>sendDunningEmail\<close> of \<^verbatim>\<open>email.ts\<close>, imported by the routes as \<^verbatim>\<open>sendEmail\<close>: one call of
  the provider, whose error is caught and turned into \<^verbatim>\<open>false\<close>.
\<close>

definition sendEmail :: "env \<Rightarrow> string \<Rightarrow> string \<Rightarrow> string \<Rightarrow> world \<Rightarrow> bool \<times> world" where
  "sendEmail e to subject html w =
     (emailsSend e to subject html, w\<lparr>calls := calls w @ [EmailsSend to subject html]\<rparr>)"

section \<open>The dunning notifier\<close>

definition enabledFirstFailure :: "int \<Rightarrow> emailTemplate \<Rightarrow> bool" where
  "enabledFirstFailure userId t \<longleftrightarrow>
     tpl_userId t = userId \<and> tpl_type t = ''first_failure'' \<and> tpl_isEnabled t = Some True"

definition sendDunningEmail :: "env \<Rightarrow> timestamp \<Rightarrow> int \<Rightarrow> int \<Rightarrow> world \<Rightarrow> outcome" where
  "sendDunningEmail e now failedPaymentId userId w =
     (case find (\<lambda>r. fp_id r = failedPaymentId) (failedPayments w) of
        None \<Rightarrow> Returned w
      | Some payment \<Rightarrow>
          (case find (enabledFirstFailure userId) (emailTemplates w) of
             None \<Rightarrow> Returned w
           | Some template \<Rightarrow>
               let updateLink = interpolate (BASE_URL e) @ ''/payment/'' @ showInt failedPaymentId;
                   emailBody = renderBody (tpl_body template) updateLink
                                 (fp_amount payment) (fp_customerEmail payment);
                   w1 = snd (sendEmail e (fp_customerEmail payment) (tpl_subject template) emailBody w)
               in Returned (w1\<lparr>
                    dunningLogs := dunningLogs w1 @
                      [\<lparr>dl_id = dunningLogs_id_seq w1,
                        dl_failedPaymentId = fp_id payment,
                        dl_sentAt = Some now,
                        dl_emailTemplate = tpl_type template,
                        dl_status = Some ''sent''\<rparr>],
                    dunningLogs_id_seq := dunningLogs_id_seq w1 + 1\<rparr>)))"

section \<open>The webhook processor\<close>

text \<open>
  Lines 114 to 120 of \<^verbatim>\<open>handlePaymentFailed\<close>: the receipt email, or else the email of the
  customer record fetched from the processor. \<open>retrieveNeeded\<close> is the condition of the
  fetch, whose error the handler does not catch.
\<close>

definition retrieveNeeded :: "paymentIntent \<Rightarrow> bool" where
  "retrieveNeeded p \<longleftrightarrow> \<not> truthy (pi_receipt_email p) \<and> truthy (pi_customer p)"

definition resolveCustomerEmail :: "env \<Rightarrow> paymentIntent \<Rightarrow> string + string option" where
  "resolveCustomerEmail e p =
     (if retrieveNeeded p
      then (case pi_customer p of
              None \<Rightarrow> Inr (pi_receipt_email p)
            | Some c \<Rightarrow>
                (case customersRetrieve e c of
                   RetrieveThrows msg \<Rightarrow> Inl msg
                 | DeletedCustomer \<Rightarrow> Inr (pi_receipt_email p)
                 | Customer email \<Rightarrow> Inr (if truthy email then email else None)))
      else Inr (pi_receipt_email p))"

definition retrieveCalls :: "paymentIntent \<Rightarrow> call list" where
  "retrieveCalls p =
     (if retrieveNeeded p
      then (case pi_customer p of None \<Rightarrow> [] | Some c \<Rightarrow> [CustomersRetrieve c])
      else [])"

text \<open>
  The range of an \<^verbatim>\<open>integer\<close> column, and the messages of the two refusals. The source
  does not fix the wording of the errors of the database driver: the two texts stand for it.
\<close>

definition int4 :: "int \<Rightarrow> bool" where
  "int4 n \<longleftrightarrow> - 2147483648 \<le> n \<and> n \<le> 2147483647"

definition outOfRange :: "int \<Rightarrow> string" where
  "outOfRange n = ''value '' @ showInt n @ '' is out of range for type integer''"

definition notNullViolation :: string where
  "notNullViolation = ''null value in column stripe_customer_id violates not-null constraint''"

text \<open>\<^verbatim>\<open>existing.attemptCount + 1\<close>: a \<^verbatim>\<open>null\<close> count is 0 in the sum.\<close>

definition nextAttempt :: "failedPayment \<Rightarrow> int" where
  "nextAttempt existing = (case fp_attemptCount existing of None \<Rightarrow> 0 | Some n \<Rightarrow> n) + 1"

definition incrementAttempt :: "failedPayment \<Rightarrow> failedPayment \<Rightarrow> failedPayment" where
  "incrementAttempt existing r =
     (if fp_id r = fp_id existing
      then r\<lparr>fp_attemptCount := Some (nextAttempt existing)\<rparr>
      else r)"

definition failureReason :: "paymentIntent \<Rightarrow> string option" where
  "failureReason p =
     (case pi_last_payment_error p of
        Some (Some m) \<Rightarrow> (if m = [] then None else Some m)
      | _ \<Rightarrow> None)"

definition newFailedPayment ::
  "timestamp \<Rightarrow> user \<Rightarrow> paymentIntent \<Rightarrow> string \<Rightarrow> string \<Rightarrow> int \<Rightarrow> failedPayment" where
  "newFailedPayment now usr p customer customerEmail new_id =
     \<lparr>fp_id = new_id,
      fp_userId = u_id usr,
      fp_stripePaymentIntentId = pi_id p,
      fp_stripeCustomerId = customer,
      fp_customerEmail = customerEmail,
      fp_amount = pi_amount p,
      fp_currency = pi_currency p,
      fp_status = Some ''failed'',
      fp_failureReason = failureReason p,
      fp_attemptCount = Some 1,
      fp_nextRetryAt = Some (now + 24 * 60 * 60 * 1000),
      fp_createdAt = Some now,
      fp_recoveredAt = None\<rparr>"

definition handlePaymentFailed :: "env \<Rightarrow> timestamp \<Rightarrow> paymentIntent \<Rightarrow> world \<Rightarrow> outcome" where
  "handlePaymentFailed e now p w =
     (if \<not> truthy (pi_on_behalf_of p) then Returned w
      else case find (\<lambda>u. u_stripeAccountId u = pi_on_behalf_of p) (users w) of
        None \<Rightarrow> Returned w
      | Some usr \<Rightarrow>
          let w1 = w\<lparr>calls := calls w @ retrieveCalls p\<rparr> in
          (case resolveCustomerEmail e p of
             Inl msg \<Rightarrow> Threw msg w1
           | Inr None \<Rightarrow> Returned w1
           | Inr (Some customerEmail) \<Rightarrow>
               if customerEmail = [] then Returned w1
               else
                 (case find (\<lambda>r. fp_stripePaymentIntentId r = pi_id p) (failedPayments w1) of
                    Some existing \<Rightarrow>
                      if int4 (nextAttempt existing)
                      then Returned (w1\<lparr>failedPayments :=
                                       map (incrementAttempt existing) (failedPayments w1)\<rparr>)
                      else Threw (outOfRange (nextAttempt existing)) w1
                  | None \<Rightarrow>
                      if \<not> int4 (pi_amount p) then Threw (outOfRange (pi_amount p)) w1
                      else
                        (case pi_customer p of
                           None \<Rightarrow>
                             Threw notNullViolation
                               (w1\<lparr>failedPayments_id_seq := failedPayments_id_seq w1 + 1\<rparr>)
                         | Some customer \<Rightarrow>
                             let row = newFailedPayment now usr p customer customerEmail
                                         (failedPayments_id_seq w1);
                                 w2 = w1\<lparr>failedPayments := failedPayments w1 @ [row],
                                        failedPayments_id_seq := failedPayments_id_seq w1 + 1\<rparr>
                             in sendDunningEmail e now (fp_id row) (u_id usr) w2))))"

definition markRecovered :: "timestamp \<Rightarrow> int \<Rightarrow> failedPayment \<Rightarrow> failedPayment" where
  "markRecovered now target r =
     (if fp_id r = target
      then r\<lparr>fp_status := Some ''recovered'', fp_recoveredAt := Some now\<rparr>
      else r)"

definition handlePaymentSucceeded :: "timestamp \<Rightarrow> paymentIntent \<Rightarrow> world \<Rightarrow> outcome" where
  "handlePaymentSucceeded now p w =
     (case find (\<lambda>r. fp_stripePaymentIntentId r = pi_id p) (failedPayments w) of
        None \<Rightarrow> Returned w
      | Some failedPayment \<Rightarrow>
          if fp_status failedPayment = Some ''failed''
          then Returned (w\<lparr>failedPayments :=
                 map (markRecovered now (fp_id failedPayment)) (failedPayments w)\<rparr>)
          else Returned w)"

text \<open>The \<^verbatim>\<open>switch\<close> on the event type, inside the route's second \<^verbatim>\<open>try\<close>.\<close>

definition dispatch :: "env \<Rightarrow> timestamp \<Rightarrow> event \<Rightarrow> world \<Rightarrow> outcome" where
  "dispatch e now ev w =
     (if ev_type ev = ''payment_intent.payment_failed''
      then handlePaymentFailed e now (ev_object ev) w
      else if ev_type ev = ''payment_intent.succeeded''
      then handlePaymentSucceeded now (ev_object ev) w
      else Returned w)"

text \<open>\<^verbatim>\<open>POST /api/stripe/webhook\<close>.\<close>

definition webhook :: "env \<Rightarrow> timestamp \<Rightarrow> webhookRequest \<Rightarrow> world \<Rightarrow> response \<times> world" where
  "webhook e now req w =
     (case (stripe_signature req, STRIPE_WEBHOOK_SECRET e) of
        (Some sig, Some webhookSecret) \<Rightarrow>
          if sig = [] \<or> webhookSecret = []
          then (\<lparr>res_status = 400, res_body = Text ''Missing signature''\<rparr>, w)
          else
            (case constructEvent e (raw_body req) sig webhookSecret of
               Inl msg \<Rightarrow> (\<lparr>res_status = 400, res_body = Text (''Webhook Error: '' @ msg)\<rparr>, w)
             | Inr ev \<Rightarrow>
                 (case dispatch e now ev w of
                    Returned w' \<Rightarrow> (\<lparr>res_status = 200, res_body = Json_received\<rparr>, w')
                  | Threw msg w' \<Rightarrow>
                      (\<lparr>res_status = 500, res_body = Text (''Error: '' @ msg)\<rparr>, w')))
      | _ \<Rightarrow> (\<lparr>res_status = 400, res_body = Text ''Missing signature''\<rparr>, w))"

section \<open>The recovery flow\<close>

text \<open>
  \<^verbatim>\<open>POST /api/public/payment/:id/update\<close>, with the path parameter already parsed to the
  number the lookup compares with.
\<close>

definition paymentUpdate :: "env \<Rightarrow> timestamp \<Rightarrow> int \<Rightarrow> string \<Rightarrow> world \<Rightarrow> response \<times> world" where
  "paymentUpdate e now paymentId paymentMethodId w =
     (case find (\<lambda>r. fp_id r = paymentId) (failedPayments w) of
        None \<Rightarrow> (\<lparr>res_status = 404, res_body = Json_error ''Payment not found''\<rparr>, w)
      | Some payment \<Rightarrow>
          let w1 = w\<lparr>calls := calls w @ [CustomersUpdate (fp_stripeCustomerId payment) paymentMethodId]\<rparr> in
          (case customersUpdate e (fp_stripeCustomerId payment) paymentMethodId of
             Some msg \<Rightarrow> (\<lparr>res_status = 500, res_body = Json_error msg\<rparr>, w1)
           | None \<Rightarrow>
               let w2 = w1\<lparr>calls := calls w1 @ [PaymentIntentsConfirm (fp_stripePaymentIntentId payment)]\<rparr> in
               (case paymentIntentsConfirm e (fp_stripePaymentIntentId payment) of
                  Some msg \<Rightarrow> (\<lparr>res_status = 500, res_body = Json_error msg\<rparr>, w2)
                | None \<Rightarrow>
                    (\<lparr>res_status = 200, res_body = Json_success\<rparr>,
                     w2\<lparr>failedPayments := map (markRecovered now paymentId) (failedPayments w2)\<rparr>))))"

section \<open>Sequences of requests\<close>

datatype request =
  Webhook webhookRequest
| PaymentUpdate int string

fun serve :: "env \<times> timestamp \<times> request \<Rightarrow> world \<Rightarrow> response \<times> world" where
  "serve (e, now, Webhook req) w = webhook e now req w"
| "serve (e, now, PaymentUpdate paymentId paymentMethodId) w = paymentUpdate e now paymentId paymentMethodId w"

fun run :: "(env \<times> timestamp \<times> request) list \<Rightarrow> world \<Rightarrow> world" where
  "run [] w = w"
| "run (x # xs) w = run xs (snd (serve x w))"

section \<open>Vocabulary of the properties\<close>

text \<open>The world a handler leaves behind, whether it returned or threw.\<close>

fun world_of :: "outcome \<Rightarrow> world" where
  "world_of (Returned w) = w"
| "world_of (Threw msg w) = w"

fun threw :: "outcome \<Rightarrow> bool" where
  "threw (Returned w) = False"
| "threw (Threw msg w) = True"

text \<open>The rows that track a payment intent and are not recovered, counted.\<close>

definition openCount :: "string \<Rightarrow> world \<Rightarrow> nat" where
  "openCount pid w =
     length (filter (\<lambda>r. fp_stripePaymentIntentId r = pid \<and> fp_status r \<noteq> Some ''recovered'')
       (failedPayments w))"

text \<open>
  What the store guarantees of \<^verbatim>\<open>failed_payments\<close> in the states the routes produce: the
  primary key is unique and below the sequence's next value, and no two rows track the
  same payment intent. \<open>wellFormed_run\<close> below shows that every request keeps it.
\<close>

definition wellFormed :: "world \<Rightarrow> bool" where
  "wellFormed w \<longleftrightarrow>
     distinct (map fp_id (failedPayments w)) \<and>
     distinct (map fp_stripePaymentIntentId (failedPayments w)) \<and>
     list_all (\<lambda>r. fp_id r < failedPayments_id_seq w) (failedPayments w)"

text \<open>The emails among the external calls.\<close>

fun isEmail :: "call \<Rightarrow> bool" where
  "isEmail (EmailsSend to subject html) = True"
| "isEmail c = False"

definition emailsSent :: "world \<Rightarrow> call list" where
  "emailsSent w = filter isEmail (calls w)"

text \<open>What one request can do to the table of failed payments and to its sequence.\<close>

definition rowsStep :: "world \<Rightarrow> world \<Rightarrow> bool" where
  "rowsStep w w' \<longleftrightarrow>
     failedPayments w' = failedPayments w \<and> failedPayments_id_seq w \<le> failedPayments_id_seq w'
     \<or> (\<exists>ex. failedPayments w' = map (incrementAttempt ex) (failedPayments w)
           \<and> failedPayments_id_seq w' = failedPayments_id_seq w)
     \<or> (\<exists>now i. failedPayments w' = map (markRecovered now i) (failedPayments w)
           \<and> failedPayments_id_seq w' = failedPayments_id_seq w)
     \<or> (\<exists>row. find (\<lambda>r. fp_stripePaymentIntentId r = fp_stripePaymentIntentId row)
                  (failedPayments w) = None
           \<and> fp_id row = failedPayments_id_seq w
           \<and> failedPayments w' = failedPayments w @ [row]
           \<and> failedPayments_id_seq w' = failedPayments_id_seq w + 1)"

section \<open>A concrete deployment, for the closed instances\<close>

definition acme :: user where
  "acme =
     \<lparr>u_id = 7, u_email = ''owner@acme.test'', u_username = ''acme'', u_password = ''hash'',
      u_stripeAccountId = Some ''acct_1'', u_isConnected = Some True,
      u_subscriptionStatus = Some ''active'', u_createdAt = Some 0\<rparr>"

definition firstFailure :: emailTemplate where
  "firstFailure =
     \<lparr>tpl_id = 1, tpl_userId = 7, tpl_type = ''first_failure'',
      tpl_subject = ''Payment failed'', tpl_body = ''Pay {{amount}} now'',
      tpl_isEnabled = Some True\<rparr>"

definition intent :: paymentIntent where
  "intent =
     \<lparr>pi_id = ''pi_1'', pi_on_behalf_of = Some ''acct_1'',
      pi_receipt_email = Some ''pat@shop.test'', pi_customer = Some ''cus_1'',
      pi_amount = 4999, pi_currency = ''usd'',
      pi_last_payment_error = Some (Some ''card_declined'')\<rparr>"

text \<open>The same intent as the processor sends it when no connected account is set.\<close>

definition orphanIntent :: paymentIntent where
  "orphanIntent = intent\<lparr>pi_on_behalf_of := None\<rparr>"

text \<open>The same intent on behalf of an account that no user has connected.\<close>

definition strayIntent :: paymentIntent where
  "strayIntent = intent\<lparr>pi_on_behalf_of := Some ''acct_9''\<rparr>"

text \<open>The same intent of a guest: a receipt email and no customer record.\<close>

definition guestIntent :: paymentIntent where
  "guestIntent = intent\<lparr>pi_customer := None\<rparr>"

text \<open>The same intent for an amount beyond the 32-bit range.\<close>

definition bulkIntent :: paymentIntent where
  "bulkIntent = intent\<lparr>pi_amount := 3000000000\<rparr>"

text \<open>The same intent without a receipt email: the handler has to fetch the customer.\<close>

definition bareIntent :: paymentIntent where
  "bareIntent = intent\<lparr>pi_receipt_email := None\<rparr>"

definition store0 :: world where
  "store0 =
     \<lparr>users = [acme], failedPayments = [], emailTemplates = [firstFailure], dunningLogs = [],
      failedPayments_id_seq = 1, dunningLogs_id_seq = 1, calls = []\<rparr>"

definition tracked :: failedPayment where
  "tracked =
     \<lparr>fp_id = 1, fp_userId = 7, fp_stripePaymentIntentId = ''pi_1'',
      fp_stripeCustomerId = ''cus_1'', fp_customerEmail = ''pat@shop.test'',
      fp_amount = 4999, fp_currency = ''usd'', fp_status = Some ''failed'',
      fp_failureReason = Some ''card_declined'', fp_attemptCount = Some 1,
      fp_nextRetryAt = Some 86401000, fp_createdAt = Some 1000, fp_recoveredAt = None\<rparr>"

definition store1 :: world where
  "store1 = store0\<lparr>failedPayments := [tracked], failedPayments_id_seq := 2\<rparr>"

definition storeRecovered :: world where
  "storeRecovered =
     store0\<lparr>failedPayments := [tracked\<lparr>fp_status := Some ''recovered'', fp_recoveredAt := Some 5000\<rparr>],
            failedPayments_id_seq := 2\<rparr>"

text \<open>
  A processor that accepts every call, and a signature check that accepts the header
  \<^verbatim>\<open>good\<close> only; the request body is read as the event's type.
\<close>

definition processor :: env where
  "processor =
     \<lparr>STRIPE_WEBHOOK_SECRET = Some ''whsec'',
      BASE_URL = Some ''https://retainr.test'',
      constructEvent = (\<lambda>payload sig secret.
         if sig = ''good'' then Inr \<lparr>ev_type = payload, ev_object = bareIntent\<rparr>
         else Inl ''No signatures found matching the expected signature for payload''),
      customersRetrieve = (\<lambda>c. Customer (Some ''pat@shop.test'')),
      customersUpdate = (\<lambda>c m. None),
      paymentIntentsConfirm = (\<lambda>i. None),
      emailsSend = (\<lambda>to subject html. True)\<rparr>"

text \<open>The same processor when its API is unreachable: fetching a customer throws.\<close>

definition processorDown :: env where
  "processorDown = processor\<lparr>customersRetrieve := (\<lambda>c. RetrieveThrows ''connection error'')\<rparr>"

section \<open>The notifier and the failure handler, case by case\<close>

lemma sendDunningEmail_no_template:
  assumes "find (enabledFirstFailure userId) (emailTemplates w) = None"
  shows "sendDunningEmail e now i userId w = Returned w"
  using assms by (simp add: sendDunningEmail_def split: option.splits)

lemma sendDunningEmail_template:
  assumes "find (\<lambda>r. fp_id r = i) (failedPayments w) = Some payment"
    and "find (enabledFirstFailure userId) (emailTemplates w) = Some template"
  shows "sendDunningEmail e now i userId w =
    Returned (w\<lparr>calls := calls w @
        [EmailsSend (fp_customerEmail payment) (tpl_subject template)
           (renderBody (tpl_body template)
              (interpolate (BASE_URL e) @ ''/payment/'' @ showInt i)
              (fp_amount payment) (fp_customerEmail payment))],
      dunningLogs := dunningLogs w @
        [\<lparr>dl_id = dunningLogs_id_seq w, dl_failedPaymentId = fp_id payment,
          dl_sentAt = Some now, dl_emailTemplate = tpl_type template,
          dl_status = Some ''sent''\<rparr>],
      dunningLogs_id_seq := dunningLogs_id_seq w + 1\<rparr>)"
  using assms by (simp add: sendDunningEmail_def sendEmail_def Let_def)

text \<open>The notifier never throws, and writes nothing but the log and the email call.\<close>

lemma sendDunningEmail_frame:
  "\<exists>cs ls n. sendDunningEmail e now i userId w =
      Returned (w\<lparr>calls := cs, dunningLogs := ls, dunningLogs_id_seq := n\<rparr>)"
proof (cases "find (\<lambda>r. fp_id r = i) (failedPayments w)")
  case None
  then have "sendDunningEmail e now i userId w = Returned w"
    by (simp add: sendDunningEmail_def)
  moreover have "w = w\<lparr>calls := calls w, dunningLogs := dunningLogs w,
      dunningLogs_id_seq := dunningLogs_id_seq w\<rparr>"
    by simp
  ultimately show ?thesis by metis
next
  case (Some payment)
  show ?thesis
  proof (cases "find (enabledFirstFailure userId) (emailTemplates w)")
    case None
    then have "sendDunningEmail e now i userId w = Returned w"
      by (rule sendDunningEmail_no_template)
    moreover have "w = w\<lparr>calls := calls w, dunningLogs := dunningLogs w,
        dunningLogs_id_seq := dunningLogs_id_seq w\<rparr>"
      by simp
    ultimately show ?thesis by metis
  next
    case inner: (Some template)
    show ?thesis
      unfolding sendDunningEmail_template [OF Some inner] by blast
  qed
qed

lemma sendDunningEmail_returns: "\<not> threw (sendDunningEmail e now i userId w)"
  using sendDunningEmail_frame [of e now i userId w] by auto

lemma handlePaymentFailed_existing:
  assumes "truthy (pi_on_behalf_of p)"
    and "find (\<lambda>u. u_stripeAccountId u = pi_on_behalf_of p) (users w) = Some usr"
    and "resolveCustomerEmail e p = Inr (Some email)"
    and "email \<noteq> []"
    and "find (\<lambda>r. fp_stripePaymentIntentId r = pi_id p) (failedPayments w) = Some existing"
    and "int4 (nextAttempt existing)"
  shows "handlePaymentFailed e now p w =
    Returned (w\<lparr>calls := calls w @ retrieveCalls p,
      failedPayments := map (incrementAttempt existing) (failedPayments w)\<rparr>)"
  using assms by (simp add: handlePaymentFailed_def Let_def)

lemma handlePaymentFailed_new:
  assumes "truthy (pi_on_behalf_of p)"
    and "find (\<lambda>u. u_stripeAccountId u = pi_on_behalf_of p) (users w) = Some usr"
    and "resolveCustomerEmail e p = Inr (Some email)"
    and "email \<noteq> []"
    and "find (\<lambda>r. fp_stripePaymentIntentId r = pi_id p) (failedPayments w) = None"
    and "int4 (pi_amount p)"
    and "pi_customer p = Some customer"
  shows "handlePaymentFailed e now p w =
    sendDunningEmail e now (failedPayments_id_seq w) (u_id usr)
      (w\<lparr>calls := calls w @ retrieveCalls p,
        failedPayments := failedPayments w @
          [newFailedPayment now usr p customer email (failedPayments_id_seq w)],
        failedPayments_id_seq := failedPayments_id_seq w + 1\<rparr>)"
  using assms by (simp add: handlePaymentFailed_def Let_def newFailedPayment_def)

text \<open>
  The ways through \<^verbatim>\<open>handlePaymentFailed\<close>: an early return before the user is known, a
  throw while the customer is fetched, an early return for want of an email, the update of
  a tracked intent or its refusal, and the insertion of a new row followed by the notifier,
  or its refusal. In all of them but the update and the insertion the tables are the ones
  before the event.
\<close>

lemma handlePaymentFailed_cases:
  obtains (skip) "\<not> truthy (pi_on_behalf_of p)
        \<or> find (\<lambda>u. u_stripeAccountId u = pi_on_behalf_of p) (users w) = None"
      "handlePaymentFailed e now p w = Returned w"
    | (throws) usr msg where "truthy (pi_on_behalf_of p)"
        "find (\<lambda>u. u_stripeAccountId u = pi_on_behalf_of p) (users w) = Some usr"
        "resolveCustomerEmail e p = Inl msg"
        "handlePaymentFailed e now p w = Threw msg (w\<lparr>calls := calls w @ retrieveCalls p\<rparr>)"
    | (noemail) usr where "truthy (pi_on_behalf_of p)"
        "find (\<lambda>u. u_stripeAccountId u = pi_on_behalf_of p) (users w) = Some usr"
        "resolveCustomerEmail e p = Inr None \<or> resolveCustomerEmail e p = Inr (Some [])"
        "handlePaymentFailed e now p w = Returned (w\<lparr>calls := calls w @ retrieveCalls p\<rparr>)"
    | (existing) usr email ex where "truthy (pi_on_behalf_of p)"
        "find (\<lambda>u. u_stripeAccountId u = pi_on_behalf_of p) (users w) = Some usr"
        "resolveCustomerEmail e p = Inr (Some email)" "email \<noteq> []"
        "find (\<lambda>r. fp_stripePaymentIntentId r = pi_id p) (failedPayments w) = Some ex"
        "int4 (nextAttempt ex)"
        "handlePaymentFailed e now p w =
           Returned (w\<lparr>calls := calls w @ retrieveCalls p,
             failedPayments := map (incrementAttempt ex) (failedPayments w)\<rparr>)"
    | (overflow) usr email ex where "truthy (pi_on_behalf_of p)"
        "find (\<lambda>u. u_stripeAccountId u = pi_on_behalf_of p) (users w) = Some usr"
        "resolveCustomerEmail e p = Inr (Some email)" "email \<noteq> []"
        "find (\<lambda>r. fp_stripePaymentIntentId r = pi_id p) (failedPayments w) = Some ex"
        "\<not> int4 (nextAttempt ex)"
        "handlePaymentFailed e now p w =
           Threw (outOfRange (nextAttempt ex)) (w\<lparr>calls := calls w @ retrieveCalls p\<rparr>)"
    | (refused) usr email msg n where "truthy (pi_on_behalf_of p)"
        "find (\<lambda>u. u_stripeAccountId u = pi_on_behalf_of p) (users w) = Some usr"
        "resolveCustomerEmail e p = Inr (Some email)" "email \<noteq> []"
        "find (\<lambda>r. fp_stripePaymentIntentId r = pi_id p) (failedPayments w) = None"
        "\<not> int4 (pi_amount p) \<or> pi_customer p = None"
        "handlePaymentFailed e now p w =
           Threw msg (w\<lparr>calls := calls w @ retrieveCalls p, failedPayments_id_seq := n\<rparr>)"
        "failedPayments_id_seq w \<le> n"
    | (new) usr email customer where "truthy (pi_on_behalf_of p)"
        "find (\<lambda>u. u_stripeAccountId u = pi_on_behalf_of p) (users w) = Some usr"
        "resolveCustomerEmail e p = Inr (Some email)" "email \<noteq> []"
        "find (\<lambda>r. fp_stripePaymentIntentId r = pi_id p) (failedPayments w) = None"
        "int4 (pi_amount p)" "pi_customer p = Some customer"
        "handlePaymentFailed e now p w =
           sendDunningEmail e now (failedPayments_id_seq w) (u_id usr)
             (w\<lparr>calls := calls w @ retrieveCalls p,
               failedPayments := failedPayments w @
                 [newFailedPayment now usr p customer email (failedPayments_id_seq w)],
               failedPayments_id_seq := failedPayments_id_seq w + 1\<rparr>)"
proof (cases "truthy (pi_on_behalf_of p)")
  case False
  then show ?thesis using skip by (simp add: handlePaymentFailed_def)
next
  case True
  show ?thesis
  proof (cases "find (\<lambda>u. u_stripeAccountId u = pi_on_behalf_of p) (users w)")
    case None
    then show ?thesis using skip True by (simp add: handlePaymentFailed_def)
  next
    case (Some usr)
    show ?thesis
    proof (cases "resolveCustomerEmail e p")
      case (Inl msg)
      then show ?thesis using throws True Some by (simp add: handlePaymentFailed_def Let_def)
    next
      case (Inr r)
      show ?thesis
      proof (cases r)
        case None
        then show ?thesis using noemail True Some Inr by (simp add: handlePaymentFailed_def Let_def)
      next
        case email: (Some email)
        show ?thesis
        proof (cases "email = []")
          case True
          then show ?thesis
            using noemail \<open>truthy (pi_on_behalf_of p)\<close> Some Inr email
            by (simp add: handlePaymentFailed_def Let_def)
        next
          case False
          note guards = \<open>truthy (pi_on_behalf_of p)\<close> Some Inr [unfolded email] False
          show ?thesis
          proof (cases "find (\<lambda>r. fp_stripePaymentIntentId r = pi_id p) (failedPayments w)")
            case None
            show ?thesis
            proof (cases "int4 (pi_amount p)")
              case range: True
              show ?thesis
              proof (cases "pi_customer p")
                case customer: (Some customer)
                show ?thesis
                  using new [OF guards None range customer]
                    handlePaymentFailed_new [OF guards None range customer]
                  by simp
              next
                case customer: None
                have "handlePaymentFailed e now p w =
                    Threw notNullViolation
                      (w\<lparr>calls := calls w @ retrieveCalls p,
                         failedPayments_id_seq := failedPayments_id_seq w + 1\<rparr>)"
                  using guards None range customer by (simp add: handlePaymentFailed_def Let_def)
                then show ?thesis
                  using refused [OF guards None, of notNullViolation "failedPayments_id_seq w + 1"]
                    customer
                  by simp
              qed
            next
              case range: False
              have "handlePaymentFailed e now p w =
                  Threw (outOfRange (pi_amount p))
                    (w\<lparr>calls := calls w @ retrieveCalls p,
                       failedPayments_id_seq := failedPayments_id_seq w\<rparr>)"
                using guards None range by (simp add: handlePaymentFailed_def Let_def)
              then show ?thesis
                using refused [OF guards None, of "outOfRange (pi_amount p)" "failedPayments_id_seq w"]
                  range
                by simp
            qed
          next
            case ex: (Some x)
            show ?thesis
            proof (cases "int4 (nextAttempt x)")
              case True
              show ?thesis
                using existing [OF guards ex True]
                  handlePaymentFailed_existing [OF guards ex True]
                by simp
            next
              case False
              have "handlePaymentFailed e now p w =
                  Threw (outOfRange (nextAttempt x)) (w\<lparr>calls := calls w @ retrieveCalls p\<rparr>)"
                using guards ex False by (simp add: handlePaymentFailed_def Let_def)
              then show ?thesis
                using overflow [OF guards ex False] by simp
            qed
          qed
        qed
      qed
    qed
  qed
qed

lemma handlePaymentSucceeded_returns: "\<not> threw (handlePaymentSucceeded now p w)"
  by (simp add: handlePaymentSucceeded_def split: option.splits)

lemma webhook_verified:
  assumes "stripe_signature req = Some sig" and "sig \<noteq> []"
    and "STRIPE_WEBHOOK_SECRET e = Some secret" and "secret \<noteq> []"
    and "constructEvent e (raw_body req) sig secret = Inr ev"
  shows "webhook e now req w =
    (case dispatch e now ev w of
       Returned w' \<Rightarrow> (\<lparr>res_status = 200, res_body = Json_received\<rparr>, w')
     | Threw msg w' \<Rightarrow> (\<lparr>res_status = 500, res_body = Text (''Error: '' @ msg)\<rparr>, w'))"
  using assms by (simp add: webhook_def)

lemma webhook_world:
  "snd (webhook e now req w) = w \<or> (\<exists>ev. snd (webhook e now req w) = world_of (dispatch e now ev w))"
proof (cases "\<exists>sig secret ev. stripe_signature req = Some sig \<and> sig \<noteq> [] \<and>
    STRIPE_WEBHOOK_SECRET e = Some secret \<and> secret \<noteq> [] \<and>
    constructEvent e (raw_body req) sig secret = Inr ev")
  case True
  then obtain sig secret ev where v: "stripe_signature req = Some sig" "sig \<noteq> []"
    "STRIPE_WEBHOOK_SECRET e = Some secret" "secret \<noteq> []"
    "constructEvent e (raw_body req) sig secret = Inr ev"
    by blast
  have "snd (webhook e now req w) = world_of (dispatch e now ev w)"
    unfolding webhook_verified [OF v] by (cases "dispatch e now ev w") simp_all
  then show ?thesis by blast
next
  case False
  then have "snd (webhook e now req w) = w"
    by (auto simp: webhook_def split: option.splits sum.splits)
  then show ?thesis by simp
qed

lemma paymentUpdate_shape:
  "\<exists>cs. snd (paymentUpdate e now i m w) = w\<lparr>calls := cs\<rparr> \<or>
     snd (paymentUpdate e now i m w) =
       w\<lparr>calls := cs, failedPayments := map (markRecovered now i) (failedPayments w)\<rparr>"
proof (cases "find (\<lambda>r. fp_id r = i) (failedPayments w)")
  case None
  then have "snd (paymentUpdate e now i m w) = w\<lparr>calls := calls w\<rparr>"
    by (simp add: paymentUpdate_def)
  then show ?thesis by blast
next
  case (Some payment)
  show ?thesis
  proof (cases "customersUpdate e (fp_stripeCustomerId payment) m")
    case upd: (Some msg)
    have "snd (paymentUpdate e now i m w) =
        w\<lparr>calls := calls w @ [CustomersUpdate (fp_stripeCustomerId payment) m]\<rparr>"
      using Some upd by (simp add: paymentUpdate_def)
    then show ?thesis by blast
  next
    case upd: None
    show ?thesis
    proof (cases "paymentIntentsConfirm e (fp_stripePaymentIntentId payment)")
      case conf: (Some msg)
      have "snd (paymentUpdate e now i m w) =
          w\<lparr>calls := calls w @ [CustomersUpdate (fp_stripeCustomerId payment) m,
            PaymentIntentsConfirm (fp_stripePaymentIntentId payment)]\<rparr>"
        using Some upd conf by (simp add: paymentUpdate_def)
      then show ?thesis by blast
    next
      case conf: None
      have "snd (paymentUpdate e now i m w) =
          w\<lparr>calls := calls w @ [CustomersUpdate (fp_stripeCustomerId payment) m,
              PaymentIntentsConfirm (fp_stripePaymentIntentId payment)],
            failedPayments := map (markRecovered now i) (failedPayments w)\<rparr>"
        using Some upd conf by (simp add: paymentUpdate_def)
      then show ?thesis by blast
    qed
  qed
qed

section \<open>Rows and keys\<close>

lemma incrementAttempt_keeps [simp]:
  "fp_id (incrementAttempt ex r) = fp_id r"
  "fp_stripePaymentIntentId (incrementAttempt ex r) = fp_stripePaymentIntentId r"
  "fp_status (incrementAttempt ex r) = fp_status r"
  "fp_recoveredAt (incrementAttempt ex r) = fp_recoveredAt r"
  by (simp_all add: incrementAttempt_def)

lemma markRecovered_keeps [simp]:
  "fp_id (markRecovered now i r) = fp_id r"
  "fp_stripePaymentIntentId (markRecovered now i r) = fp_stripePaymentIntentId r"
  "fp_attemptCount (markRecovered now i r) = fp_attemptCount r"
  by (simp_all add: markRecovered_def)

lemma markRecovered_closes:
  "fp_status (markRecovered now i r) \<noteq> Some ''recovered'' \<Longrightarrow> fp_status r \<noteq> Some ''recovered''"
  by (simp add: markRecovered_def split: if_splits)

lemma find_None_pi:
  "find (\<lambda>r. fp_stripePaymentIntentId r = pid) rows = None \<longleftrightarrow>
     pid \<notin> set (map fp_stripePaymentIntentId rows)"
  by (induction rows) auto

lemma find_by_intent:
  assumes "distinct (map fp_stripePaymentIntentId rows)" and "x \<in> set rows"
  shows "find (\<lambda>r. fp_stripePaymentIntentId r = fp_stripePaymentIntentId x) rows = Some x"
  using assms by (induction rows) (auto simp: rev_image_eqI)

lemma find_map_recovered:
  "find (\<lambda>r. fp_stripePaymentIntentId r = pid) (map (markRecovered now i) rows) =
     map_option (markRecovered now i) (find (\<lambda>r. fp_stripePaymentIntentId r = pid) rows)"
  by (induction rows) simp_all

lemma find_append_fresh:
  assumes "find P xs = None" and "P x"
  shows "find P (xs @ [x]) = Some x"
  using assms by (induction xs) (auto split: if_splits)

lemma find_last_matching:
  assumes "P x"
  shows "\<exists>y. find P (xs @ [x]) = Some y \<and> P y"
  using assms by (induction xs) auto

lemma same_key_same_row:
  assumes "distinct (map fp_id rows)" and "x \<in> set rows" and "r \<in> set rows"
    and "fp_id r = fp_id x"
  shows "r = x"
proof -
  have "inj_on fp_id (set rows)"
    using assms(1) by (simp add: distinct_map)
  then show ?thesis
    using assms(2-4) by (auto dest: inj_onD)
qed

lemma increment_only_existing:
  assumes "distinct (map fp_id rows)" and "existing \<in> set rows"
  shows "map (incrementAttempt existing) rows =
    map (\<lambda>r. if r = existing
          then existing\<lparr>fp_attemptCount := Some (nextAttempt existing)\<rparr>
          else r) rows"
proof (rule map_cong [OF refl])
  fix r
  assume "r \<in> set rows"
  then have "fp_id r = fp_id existing \<longleftrightarrow> r = existing"
    using same_key_same_row [OF assms(1) assms(2)] by auto
  then show "incrementAttempt existing r =
    (if r = existing
     then existing\<lparr>fp_attemptCount := Some (nextAttempt existing)\<rparr>
     else r)"
    by (auto simp: incrementAttempt_def)
qed

lemma recovered_only_target:
  assumes "distinct (map fp_id rows)" and "x \<in> set rows"
  shows "map (markRecovered now (fp_id x)) rows =
    map (\<lambda>r. if r = x then x\<lparr>fp_status := Some ''recovered'', fp_recoveredAt := Some now\<rparr> else r) rows"
proof (rule map_cong [OF refl])
  fix r
  assume "r \<in> set rows"
  then have "fp_id r = fp_id x \<longleftrightarrow> r = x"
    using same_key_same_row [OF assms(1) assms(2)] by auto
  then show "markRecovered now (fp_id x) r =
    (if r = x then x\<lparr>fp_status := Some ''recovered'', fp_recoveredAt := Some now\<rparr> else r)"
    by (auto simp: markRecovered_def)
qed

lemma length_filter_map_le:
  assumes "\<And>x. P (g x) \<Longrightarrow> P x"
  shows "length (filter P (map g xs)) \<le> length (filter P xs)"
  using assms by (induction xs) auto

lemma isEmail_retrieveCalls: "filter isEmail (retrieveCalls p) = []"
  by (cases "pi_customer p"; cases "retrieveNeeded p") (simp_all add: retrieveCalls_def)

lemma emailsSent_retrieve:
  "emailsSent (w\<lparr>calls := calls w @ retrieveCalls p\<rparr>) = emailsSent w"
  by (simp add: emailsSent_def isEmail_retrieveCalls)

section \<open>What a request does to the table of failed payments\<close>

lemma rowsStep_same:
  "failedPayments w' = failedPayments w \<Longrightarrow>
   failedPayments_id_seq w \<le> failedPayments_id_seq w' \<Longrightarrow> rowsStep w w'"
  by (simp add: rowsStep_def)

lemma rowsStep_increment:
  "failedPayments w' = map (incrementAttempt ex) (failedPayments w) \<Longrightarrow>
   failedPayments_id_seq w' = failedPayments_id_seq w \<Longrightarrow> rowsStep w w'"
  unfolding rowsStep_def by blast

lemma rowsStep_recovered:
  "failedPayments w' = map (markRecovered now i) (failedPayments w) \<Longrightarrow>
   failedPayments_id_seq w' = failedPayments_id_seq w \<Longrightarrow> rowsStep w w'"
  unfolding rowsStep_def by blast

lemma rowsStep_new:
  "find (\<lambda>r. fp_stripePaymentIntentId r = fp_stripePaymentIntentId row) (failedPayments w) = None \<Longrightarrow>
   fp_id row = failedPayments_id_seq w \<Longrightarrow>
   failedPayments w' = failedPayments w @ [row] \<Longrightarrow>
   failedPayments_id_seq w' = failedPayments_id_seq w + 1 \<Longrightarrow> rowsStep w w'"
  unfolding rowsStep_def by blast

lemma rowsStep_refl: "rowsStep w w"
  by (simp add: rowsStep_def)

lemma handlePaymentFailed_rowsStep: "rowsStep w (world_of (handlePaymentFailed e now p w))"
proof (cases rule: handlePaymentFailed_cases [of p w e now])
  case skip
  then show ?thesis by (simp add: rowsStep_refl)
next
  case (throws usr msg)
  then show ?thesis by (simp add: rowsStep_same)
next
  case (noemail usr)
  then show ?thesis by (simp add: rowsStep_same)
next
  case (existing usr email ex)
  then show ?thesis
    by (intro rowsStep_increment [where ex = ex]) simp_all
next
  case (overflow usr email ex)
  then show ?thesis by (simp add: rowsStep_same)
next
  case (refused usr email msg)
  then show ?thesis by (simp add: rowsStep_same)
next
  case (new usr email customer)
  let ?row = "newFailedPayment now usr p customer email (failedPayments_id_seq w)"
  let ?w2 = "w\<lparr>calls := calls w @ retrieveCalls p,
      failedPayments := failedPayments w @ [?row],
      failedPayments_id_seq := failedPayments_id_seq w + 1\<rparr>"
  obtain cs ls n where
    "sendDunningEmail e now (failedPayments_id_seq w) (u_id usr) ?w2 =
       Returned (?w2\<lparr>calls := cs, dunningLogs := ls, dunningLogs_id_seq := n\<rparr>)"
    using sendDunningEmail_frame by blast
  then have after: "failedPayments (world_of (handlePaymentFailed e now p w)) =
      failedPayments w @ [?row]"
    "failedPayments_id_seq (world_of (handlePaymentFailed e now p w)) =
      failedPayments_id_seq w + 1"
    using new(8) by simp_all
  have "find (\<lambda>r. fp_stripePaymentIntentId r = fp_stripePaymentIntentId ?row)
      (failedPayments w) = None"
    using new(5) by (simp add: newFailedPayment_def)
  moreover have "fp_id ?row = failedPayments_id_seq w"
    by (simp add: newFailedPayment_def)
  ultimately show ?thesis
    using after by (rule rowsStep_new)
qed

lemma handlePaymentSucceeded_rowsStep: "rowsStep w (world_of (handlePaymentSucceeded now p w))"
proof (cases "find (\<lambda>r. fp_stripePaymentIntentId r = pi_id p) (failedPayments w)")
  case None
  then show ?thesis by (simp add: handlePaymentSucceeded_def rowsStep_def)
next
  case (Some r)
  show ?thesis
  proof (cases "fp_status r = Some ''failed''")
    case True
    then have "failedPayments (world_of (handlePaymentSucceeded now p w)) =
        map (markRecovered now (fp_id r)) (failedPayments w)"
      and "failedPayments_id_seq (world_of (handlePaymentSucceeded now p w)) =
        failedPayments_id_seq w"
      using Some by (simp_all add: handlePaymentSucceeded_def)
    then show ?thesis by (rule rowsStep_recovered)
  next
    case False
    then show ?thesis using Some by (simp add: handlePaymentSucceeded_def rowsStep_def)
  qed
qed

lemma dispatch_rowsStep: "rowsStep w (world_of (dispatch e now ev w))"
  by (simp add: dispatch_def handlePaymentFailed_rowsStep handlePaymentSucceeded_rowsStep
      rowsStep_refl)

lemma webhook_rowsStep: "rowsStep w (snd (webhook e now req w))"
proof -
  from webhook_world [of e now req w] show ?thesis
  proof (elim disjE exE)
    assume "snd (webhook e now req w) = w"
    then show ?thesis by (simp add: rowsStep_refl)
  next
    fix ev
    assume "snd (webhook e now req w) = world_of (dispatch e now ev w)"
    then show ?thesis by (simp add: dispatch_rowsStep)
  qed
qed

lemma paymentUpdate_rowsStep: "rowsStep w (snd (paymentUpdate e now i m w))"
proof -
  from paymentUpdate_shape [of e now i m w] show ?thesis
  proof (elim exE disjE)
    fix cs
    assume "snd (paymentUpdate e now i m w) = w\<lparr>calls := cs\<rparr>"
    then show ?thesis by (simp add: rowsStep_same)
  next
    fix cs
    assume "snd (paymentUpdate e now i m w) =
      w\<lparr>calls := cs, failedPayments := map (markRecovered now i) (failedPayments w)\<rparr>"
    then show ?thesis
      by (intro rowsStep_recovered [where now = now and i = i]) simp_all
  qed
qed

lemma serve_rowsStep: "rowsStep w (snd (serve x w))"
proof -
  obtain e now r where x: "x = (e, now, r)"
    by (cases x)
  show ?thesis
    unfolding x by (cases r) (simp_all add: webhook_rowsStep paymentUpdate_rowsStep)
qed

section \<open>Invariants of the table\<close>

lemma openCount_rows:
  "failedPayments w' = failedPayments w \<Longrightarrow> openCount pid w' = openCount pid w"
  by (simp add: openCount_def)

lemma openCount_increment:
  "failedPayments w' = map (incrementAttempt ex) (failedPayments w) \<Longrightarrow>
     openCount pid w' = openCount pid w"
  by (simp add: openCount_def filter_map comp_def)

lemma openCount_recovered:
  assumes "failedPayments w' = map (markRecovered now i) (failedPayments w)"
  shows "openCount pid w' \<le> openCount pid w"
proof -
  have "length (filter (\<lambda>r. fp_stripePaymentIntentId r = pid \<and> fp_status r \<noteq> Some ''recovered'')
          (map (markRecovered now i) (failedPayments w)))
        \<le> length (filter (\<lambda>r. fp_stripePaymentIntentId r = pid \<and> fp_status r \<noteq> Some ''recovered'')
          (failedPayments w))"
    by (rule length_filter_map_le) (auto dest: markRecovered_closes)
  then show ?thesis
    using assms by (simp add: openCount_def)
qed

lemma openCount_new:
  assumes rows: "failedPayments w' = failedPayments w @ [row]"
    and fresh: "find (\<lambda>r. fp_stripePaymentIntentId r = fp_stripePaymentIntentId row) (failedPayments w) = None"
    and inv: "openCount pid w \<le> 1"
  shows "openCount pid w' \<le> 1"
proof (cases "pid = fp_stripePaymentIntentId row")
  case True
  have "\<forall>r\<in>set (failedPayments w). fp_stripePaymentIntentId r \<noteq> pid"
    using fresh True by (simp add: find_None_iff)
  then have "filter (\<lambda>r. fp_stripePaymentIntentId r = pid \<and> fp_status r \<noteq> Some ''recovered'')
      (failedPayments w) = []"
    by (simp add: filter_empty_conv)
  then show ?thesis
    using rows by (simp add: openCount_def)
next
  case False
  then show ?thesis
    using rows inv by (simp add: openCount_def)
qed

lemma rowsStep_open:
  assumes "rowsStep w w'" and "\<forall>pid. openCount pid w \<le> 1"
  shows "\<forall>pid. openCount pid w' \<le> 1"
proof
  fix pid
  have inv: "openCount pid w \<le> 1"
    using assms(2) by simp
  from assms(1) show "openCount pid w' \<le> 1"
    unfolding rowsStep_def
  proof (elim disjE conjE exE)
    assume "failedPayments w' = failedPayments w"
    then have "openCount pid w' = openCount pid w"
      by (rule openCount_rows)
    then show ?thesis using inv by simp
  next
    fix ex
    assume "failedPayments w' = map (incrementAttempt ex) (failedPayments w)"
    then have "openCount pid w' = openCount pid w"
      by (rule openCount_increment)
    then show ?thesis using inv by simp
  next
    fix now i
    assume "failedPayments w' = map (markRecovered now i) (failedPayments w)"
    then have "openCount pid w' \<le> openCount pid w"
      by (rule openCount_recovered)
    then show ?thesis using inv by simp
  next
    fix row
    assume "find (\<lambda>r. fp_stripePaymentIntentId r = fp_stripePaymentIntentId row)
        (failedPayments w) = None"
      and "failedPayments w' = failedPayments w @ [row]"
    then show ?thesis using inv openCount_new by blast
  qed
qed

lemma open_run:
  "\<forall>pid. openCount pid w \<le> 1 \<Longrightarrow> \<forall>pid. openCount pid (run xs w) \<le> 1"
proof (induction xs arbitrary: w)
  case Nil
  then show ?case by simp
next
  case (Cons x xs)
  have "\<forall>pid. openCount pid (snd (serve x w)) \<le> 1"
    using serve_rowsStep Cons.prems by (rule rowsStep_open)
  then show ?case
    using Cons.IH by simp
qed

lemma closed_intent_has_no_open_row:
  assumes "distinct (map fp_stripePaymentIntentId (failedPayments w))"
    and "existing \<in> set (failedPayments w)"
    and "fp_status existing = Some ''recovered''"
  shows "openCount (fp_stripePaymentIntentId existing) w = 0"
proof -
  have "inj_on fp_stripePaymentIntentId (set (failedPayments w))"
    using assms(1) by (simp add: distinct_map)
  then have "\<And>r. r \<in> set (failedPayments w) \<Longrightarrow>
      fp_stripePaymentIntentId r = fp_stripePaymentIntentId existing \<Longrightarrow> r = existing"
    using assms(2) by (auto dest: inj_onD)
  then have "filter (\<lambda>r. fp_stripePaymentIntentId r = fp_stripePaymentIntentId existing \<and>
      fp_status r \<noteq> Some ''recovered'') (failedPayments w) = []"
    using assms(3) by (auto simp: filter_empty_conv)
  then show ?thesis
    by (simp add: openCount_def)
qed

text \<open>
  Well-formedness holds of a store without failed payments and is kept by every request,
  so it holds in every state that the routes reach from one.
\<close>

lemma wellFormed_empty: "failedPayments w = [] \<Longrightarrow> wellFormed w"
  by (simp add: wellFormed_def)

lemma rowsStep_wellFormed:
  assumes "rowsStep w w'" and "wellFormed w"
  shows "wellFormed w'"
  using assms(1) unfolding rowsStep_def
proof (elim disjE conjE exE)
  assume "failedPayments w' = failedPayments w" "failedPayments_id_seq w \<le> failedPayments_id_seq w'"
  then show ?thesis using assms(2) by (fastforce simp: wellFormed_def list_all_iff)
next
  fix ex
  assume "failedPayments w' = map (incrementAttempt ex) (failedPayments w)"
    "failedPayments_id_seq w' = failedPayments_id_seq w"
  then show ?thesis using assms(2) by (simp add: wellFormed_def comp_def list_all_iff)
next
  fix now i
  assume "failedPayments w' = map (markRecovered now i) (failedPayments w)"
    "failedPayments_id_seq w' = failedPayments_id_seq w"
  then show ?thesis using assms(2) by (simp add: wellFormed_def comp_def list_all_iff)
next
  fix row
  assume fresh: "find (\<lambda>r. fp_stripePaymentIntentId r = fp_stripePaymentIntentId row)
        (failedPayments w) = None"
    and id: "fp_id row = failedPayments_id_seq w"
    and rows: "failedPayments w' = failedPayments w @ [row]"
    and seq: "failedPayments_id_seq w' = failedPayments_id_seq w + 1"
  have "fp_stripePaymentIntentId row \<notin> set (map fp_stripePaymentIntentId (failedPayments w))"
    using fresh by (simp add: find_None_pi)
  moreover have "fp_id row \<notin> set (map fp_id (failedPayments w))"
    using assms(2) id by (auto simp: wellFormed_def list_all_iff)
  ultimately show ?thesis
    using assms(2) id rows seq by (auto simp: wellFormed_def list_all_iff)
qed

lemma wellFormed_serve: "wellFormed w \<Longrightarrow> wellFormed (snd (serve x w))"
  using serve_rowsStep rowsStep_wellFormed by blast

lemma wellFormed_run: "wellFormed w \<Longrightarrow> wellFormed (run xs w)"
  by (induction xs arbitrary: w) (simp_all add: wellFormed_serve)

section \<open>Events for a payment intent that is already tracked\<close>

text \<open>The handler writes neither the users nor the templates.\<close>

lemma handlePaymentFailed_frame:
  "users (world_of (handlePaymentFailed e now p w)) = users w \<and>
   emailTemplates (world_of (handlePaymentFailed e now p w)) = emailTemplates w"
proof (cases rule: handlePaymentFailed_cases [of p w e now])
  case (new usr email customer)
  let ?w2 = "w\<lparr>calls := calls w @ retrieveCalls p,
      failedPayments := failedPayments w @
        [newFailedPayment now usr p customer email (failedPayments_id_seq w)],
      failedPayments_id_seq := failedPayments_id_seq w + 1\<rparr>"
  obtain cs ls n where
    "sendDunningEmail e now (failedPayments_id_seq w) (u_id usr) ?w2 =
       Returned (?w2\<lparr>calls := cs, dunningLogs := ls, dunningLogs_id_seq := n\<rparr>)"
    using sendDunningEmail_frame by blast
  then show ?thesis
    using new(8) by simp
qed simp_all

text \<open>
  An event for a payment intent that is already tracked: the handler writes no log and
  sends no email. It adds one to the attempt count of the rows with the key of the row it
  found when it reaches the lookup and the new count fits the column; in every other case
  the table is the one before the event.
\<close>

lemma handlePaymentFailed_tracked:
  assumes "find (\<lambda>r. fp_stripePaymentIntentId r = pi_id p) (failedPayments w) = Some existing"
  shows "dunningLogs (world_of (handlePaymentFailed e now p w)) = dunningLogs w \<and>
    emailsSent (world_of (handlePaymentFailed e now p w)) = emailsSent w \<and>
    failedPayments (world_of (handlePaymentFailed e now p w)) =
      (if truthy (pi_on_behalf_of p) \<and>
          (\<exists>usr. find (\<lambda>u. u_stripeAccountId u = pi_on_behalf_of p) (users w) = Some usr) \<and>
          (\<exists>email. resolveCustomerEmail e p = Inr (Some email) \<and> email \<noteq> []) \<and>
          int4 (nextAttempt existing)
       then map (incrementAttempt existing) (failedPayments w)
       else failedPayments w)"
proof (cases rule: handlePaymentFailed_cases [of p w e now])
  case skip
  then show ?thesis by auto
next
  case (throws usr msg)
  then show ?thesis by (simp add: emailsSent_retrieve)
next
  case (noemail usr)
  then show ?thesis by (auto simp: emailsSent_retrieve)
next
  case (existing usr email ex)
  then have "ex = existing"
    using assms by simp
  then show ?thesis
    using existing by (simp add: emailsSent_def isEmail_retrieveCalls)
next
  case (overflow usr email ex)
  then have "ex = existing"
    using assms by simp
  then show ?thesis
    using overflow by (simp add: emailsSent_retrieve)
next
  case (refused usr email msg)
  then show ?thesis using assms by simp
next
  case (new usr email customer)
  then show ?thesis using assms by simp
qed

lemma tracked_outcome:
  assumes "wellFormed w"
    and "existing \<in> set (failedPayments w)"
    and "fp_stripePaymentIntentId existing = pi_id p"
  shows "dunningLogs (world_of (handlePaymentFailed e now p w)) = dunningLogs w \<and>
    emailsSent (world_of (handlePaymentFailed e now p w)) = emailsSent w \<and>
    failedPayments (world_of (handlePaymentFailed e now p w)) =
      (if truthy (pi_on_behalf_of p) \<and>
          (\<exists>usr. find (\<lambda>u. u_stripeAccountId u = pi_on_behalf_of p) (users w) = Some usr) \<and>
          (\<exists>email. resolveCustomerEmail e p = Inr (Some email) \<and> email \<noteq> []) \<and>
          int4 (nextAttempt existing)
       then map (\<lambda>r. if r = existing
                  then existing\<lparr>fp_attemptCount := Some (nextAttempt existing)\<rparr>
                  else r) (failedPayments w)
       else failedPayments w)"
proof -
  have found: "find (\<lambda>r. fp_stripePaymentIntentId r = pi_id p) (failedPayments w) = Some existing"
    using find_by_intent [of "failedPayments w" existing] assms by (simp add: wellFormed_def)
  have eq: "map (incrementAttempt existing) (failedPayments w) =
      map (\<lambda>r. if r = existing
            then existing\<lparr>fp_attemptCount := Some (nextAttempt existing)\<rparr>
            else r) (failedPayments w)"
    using assms(1,2) by (intro increment_only_existing) (simp_all add: wellFormed_def)
  show ?thesis
    using handlePaymentFailed_tracked [OF found, of e now] unfolding eq .
qed

lemma distinct_key_filter:
  assumes "distinct (map f xs)"
  shows "length (filter (\<lambda>x. f x = k \<and> Q x) xs) \<le> 1"
  using assms
proof (induction xs)
  case Nil
  then show ?case by simp
next
  case (Cons x xs)
  show ?case
  proof (cases "f x = k")
    case True
    then have "\<forall>y\<in>set xs. f y \<noteq> k"
      using Cons.prems by (auto simp: image_iff)
    then have "filter (\<lambda>x. f x = k \<and> Q x) xs = []"
      by (simp add: filter_empty_conv)
    then show ?thesis by simp
  next
    case False
    then show ?thesis using Cons by simp
  qed
qed

lemma wellFormed_open: "wellFormed w \<Longrightarrow> openCount pid w \<le> 1"
  unfolding openCount_def wellFormed_def by (intro distinct_key_filter) simp

section \<open>Facts of the concrete deployment\<close>

lemma intent_guards:
  "truthy (pi_on_behalf_of intent)"
  "find (\<lambda>u. u_stripeAccountId u = pi_on_behalf_of intent) [acme] = Some acme"
  "resolveCustomerEmail processor intent = Inr (Some ''pat@shop.test'')"
  "''pat@shop.test'' \<noteq> []"
  by (simp_all add: truthy_def intent_def acme_def resolveCustomerEmail_def retrieveNeeded_def)

lemma intent_row: "newFailedPayment 1000 acme intent ''cus_1'' ''pat@shop.test'' 1 = tracked"
  by (simp add: newFailedPayment_def tracked_def acme_def intent_def failureReason_def)

lemma intent_id: "pi_id intent = ''pi_1''"
  by (simp add: intent_def)

lemma acme_id: "u_id acme = 7"
  by (simp add: acme_def)

lemma firstFailure_enabled: "enabledFirstFailure 7 firstFailure"
  by (simp add: enabledFirstFailure_def firstFailure_def)

lemma store1_facts:
  "users store1 = [acme]" "failedPayments store1 = [tracked]"
  by (simp_all add: store1_def store0_def)

lemma storeRecovered_facts:
  "users storeRecovered = [acme]"
  "failedPayments storeRecovered =
     [tracked\<lparr>fp_status := Some ''recovered'', fp_recoveredAt := Some 5000\<rparr>]"
  "failedPayments_id_seq storeRecovered = 2"
  by (simp_all add: storeRecovered_def store0_def)

lemma tracked_facts:
  "fp_stripePaymentIntentId tracked = ''pi_1''" "fp_status tracked = Some ''failed''"
  "fp_attemptCount tracked = Some 1" "fp_id tracked = 1"
  by (simp_all add: tracked_def)

lemma intent_accepted: "int4 (pi_amount intent)" "pi_customer intent = Some ''cus_1''"
  by (simp_all add: intent_def int4_def)

lemma store0_facts:
  "users store0 = [acme]" "failedPayments store0 = []" "emailTemplates store0 = [firstFailure]"
  "dunningLogs store0 = []" "failedPayments_id_seq store0 = 1" "dunningLogs_id_seq store0 = 1"
  "calls store0 = []"
  by (simp_all add: store0_def)

section \<open>The failed-payment lifecycle\<close>

text \<open>
  C1, as amended. From a well-formed table (no two rows with the same key or the same payment
  intent, which an empty table is), every sequence of requests handled one after the other,
  webhook deliveries of any kind and calls of the recovery endpoint, leads to a table in
  which every payment intent has at most one row that is not recovered. A
  \<^verbatim>\<open>payment_intent.payment_failed\<close> event whose payment-intent id is already tracked never
  inserts a row. It adds one to the attempt count of the row found, and changes nothing else
  in the table, when the event's connected account resolves to a user, a customer email is
  resolvable and the new count fits the 32-bit column; in every other case, whether the
  handler returns early or throws, the table is exactly the one before the event.
\<close>

theorem one_open_row_per_intent:
  assumes "wellFormed w"
  shows "(\<forall>pid. openCount pid (run xs w) \<le> 1) \<and>
    (\<forall>existing.
       find (\<lambda>r. fp_stripePaymentIntentId r = pi_id p) (failedPayments w) = Some existing \<longrightarrow>
       length (failedPayments (world_of (handlePaymentFailed e now p w))) =
         length (failedPayments w) \<and>
       failedPayments (world_of (handlePaymentFailed e now p w)) =
         (if truthy (pi_on_behalf_of p) \<and>
             (\<exists>usr. find (\<lambda>u. u_stripeAccountId u = pi_on_behalf_of p) (users w) = Some usr) \<and>
             (\<exists>email. resolveCustomerEmail e p = Inr (Some email) \<and> email \<noteq> []) \<and>
             int4 (nextAttempt existing)
          then map (\<lambda>r. if r = existing
                     then existing\<lparr>fp_attemptCount := Some (nextAttempt existing)\<rparr>
                     else r) (failedPayments w)
          else failedPayments w))"
proof (intro conjI allI impI)
  fix pid
  have "wellFormed (run xs w)"
    using assms by (rule wellFormed_run)
  then show "openCount pid (run xs w) \<le> 1"
    by (rule wellFormed_open)
next
  fix existing
  assume found: "find (\<lambda>r. fp_stripePaymentIntentId r = pi_id p) (failedPayments w) = Some existing"
  then have row: "existing \<in> set (failedPayments w)" "fp_stripePaymentIntentId existing = pi_id p"
    by (auto simp: find_Some_iff)
  note outcome = tracked_outcome [OF assms row, of e now]
  show "failedPayments (world_of (handlePaymentFailed e now p w)) =
         (if truthy (pi_on_behalf_of p) \<and>
             (\<exists>usr. find (\<lambda>u. u_stripeAccountId u = pi_on_behalf_of p) (users w) = Some usr) \<and>
             (\<exists>email. resolveCustomerEmail e p = Inr (Some email) \<and> email \<noteq> []) \<and>
             int4 (nextAttempt existing)
          then map (\<lambda>r. if r = existing
                     then existing\<lparr>fp_attemptCount := Some (nextAttempt existing)\<rparr>
                     else r) (failedPayments w)
          else failedPayments w)"
    using outcome by blast
  then show "length (failedPayments (world_of (handlePaymentFailed e now p w))) =
      length (failedPayments w)"
    by (simp split: if_splits)
qed

text \<open>
  An instance: three requests on a store that tracks \<^verbatim>\<open>pi_1\<close>, and the attempt count of the
  tracked row going from 1 to 2.
\<close>

theorem one_open_row_per_intent_witness:
  "(\<forall>pid. openCount pid
      (run [(processor, 2000, Webhook \<lparr>stripe_signature = Some ''good'',
                                       raw_body = ''payment_intent.payment_failed''\<rparr>),
            (processor, 3000, PaymentUpdate 1 ''pm_2''),
            (processor, 4000, Webhook \<lparr>stripe_signature = Some ''good'',
                                       raw_body = ''payment_intent.payment_failed''\<rparr>)]
        store1) \<le> 1) \<and>
   failedPayments (world_of (handlePaymentFailed processor 2000 intent store1)) =
     [tracked\<lparr>fp_attemptCount := Some 2\<rparr>]"
proof -
  have wf: "wellFormed store1"
    by (simp add: wellFormed_def store1_def store0_def tracked_facts)
  have found: "find (\<lambda>r. fp_stripePaymentIntentId r = pi_id intent) (failedPayments store1) = Some tracked"
    by (simp add: store1_facts tracked_facts intent_id)
  have guards: "truthy (pi_on_behalf_of intent) \<and>
      (\<exists>usr. find (\<lambda>u. u_stripeAccountId u = pi_on_behalf_of intent) (users store1) = Some usr) \<and>
      (\<exists>email. resolveCustomerEmail processor intent = Inr (Some email) \<and> email \<noteq> []) \<and>
      int4 (nextAttempt tracked)"
    using intent_guards by (simp add: store1_facts tracked_facts nextAttempt_def int4_def)
  note t = one_open_row_per_intent [OF wf, where p = intent and e = processor and now = 2000]
  have "failedPayments (world_of (handlePaymentFailed processor 2000 intent store1)) =
      (if truthy (pi_on_behalf_of intent) \<and>
          (\<exists>usr. find (\<lambda>u. u_stripeAccountId u = pi_on_behalf_of intent) (users store1) = Some usr) \<and>
          (\<exists>email. resolveCustomerEmail processor intent = Inr (Some email) \<and> email \<noteq> []) \<and>
          int4 (nextAttempt tracked)
       then map (\<lambda>r. if r = tracked
                  then tracked\<lparr>fp_attemptCount := Some (nextAttempt tracked)\<rparr>
                  else r) (failedPayments store1)
       else failedPayments store1)"
    using t found by blast
  then have "failedPayments (world_of (handlePaymentFailed processor 2000 intent store1)) =
      map (\<lambda>r. if r = tracked
            then tracked\<lparr>fp_attemptCount := Some (nextAttempt tracked)\<rparr>
            else r) (failedPayments store1)"
    by (simp only: guards if_True simp_thms)
  then have "failedPayments (world_of (handlePaymentFailed processor 2000 intent store1)) =
      [tracked\<lparr>fp_attemptCount := Some 2\<rparr>]"
    by (simp add: store1_facts tracked_facts nextAttempt_def)
  then show ?thesis
    using t by blast
qed

text \<open>
  The increment is not unconditional: the same event without \<^verbatim>\<open>on_behalf_of\<close> matches the
  tracked row and leaves its attempt count at 1.
\<close>

theorem refailure_without_account_is_skipped:
  "failedPayments store1 = [tracked] \<and>
   fp_stripePaymentIntentId tracked = pi_id orphanIntent \<and>
   fp_attemptCount tracked = Some 1 \<and>
   handlePaymentFailed processor 2000 orphanIntent store1 = Returned store1"
  by (simp add: store1_facts tracked_facts orphanIntent_def intent_def handlePaymentFailed_def
      truthy_def)

text \<open>
  C2, as amended. A \<^verbatim>\<open>payment_intent.payment_failed\<close> event whose payment-intent id is not
  tracked, whose connected account resolves to a user, whose customer email is resolvable,
  which names a customer and whose amount fits the \<^verbatim>\<open>integer\<close> column: the handler returns,
  and the table of failed payments is the old one followed by one row, for that intent, user,
  customer, email and amount, with status \<^verbatim>\<open>failed\<close>, attempt count 1 and next retry 24
  hours after now. When the user has an enabled \<^verbatim>\<open>first_failure\<close> template the log is the
  old one followed by one row, for that payment; when the user has none the log is the old
  one.
\<close>

theorem new_failure_creates_row_and_log:
  assumes "truthy (pi_on_behalf_of p)"
    and "find (\<lambda>u. u_stripeAccountId u = pi_on_behalf_of p) (users w) = Some usr"
    and "resolveCustomerEmail e p = Inr (Some email)"
    and "email \<noteq> []"
    and "find (\<lambda>r. fp_stripePaymentIntentId r = pi_id p) (failedPayments w) = None"
    and "int4 (pi_amount p)"
    and "pi_customer p = Some customer"
  shows "\<exists>w' row. handlePaymentFailed e now p w = Returned w' \<and>
    failedPayments w' = failedPayments w @ [row] \<and>
    fp_stripePaymentIntentId row = pi_id p \<and>
    fp_userId row = u_id usr \<and>
    fp_stripeCustomerId row = customer \<and>
    fp_customerEmail row = email \<and>
    fp_amount row = pi_amount p \<and>
    fp_status row = Some ''failed'' \<and>
    fp_attemptCount row = Some 1 \<and>
    fp_nextRetryAt row = Some (now + 24 * 60 * 60 * 1000) \<and>
    (if find (enabledFirstFailure (u_id usr)) (emailTemplates w) = None
     then dunningLogs w' = dunningLogs w
     else dunningLogs w' = dunningLogs w @
       [\<lparr>dl_id = dunningLogs_id_seq w, dl_failedPaymentId = fp_id row, dl_sentAt = Some now,
         dl_emailTemplate = ''first_failure'', dl_status = Some ''sent''\<rparr>])"
proof -
  let ?row = "newFailedPayment now usr p customer email (failedPayments_id_seq w)"
  let ?w2 = "w\<lparr>calls := calls w @ retrieveCalls p,
      failedPayments := failedPayments w @ [?row],
      failedPayments_id_seq := failedPayments_id_seq w + 1\<rparr>"
  have step: "handlePaymentFailed e now p w =
      sendDunningEmail e now (failedPayments_id_seq w) (u_id usr) ?w2"
    by (rule handlePaymentFailed_new [OF assms])
  have fields: "fp_stripePaymentIntentId ?row = pi_id p" "fp_userId ?row = u_id usr"
    "fp_customerEmail ?row = email" "fp_status ?row = Some ''failed''"
    "fp_attemptCount ?row = Some 1" "fp_nextRetryAt ?row = Some (now + 24 * 60 * 60 * 1000)"
    "fp_id ?row = failedPayments_id_seq w"
    "fp_stripeCustomerId ?row = customer" "fp_amount ?row = pi_amount p"
    by (simp_all add: newFailedPayment_def)
  show ?thesis
  proof (cases "find (enabledFirstFailure (u_id usr)) (emailTemplates w)")
    case None
    then have "sendDunningEmail e now (failedPayments_id_seq w) (u_id usr) ?w2 = Returned ?w2"
      by (intro sendDunningEmail_no_template) simp
    then have "handlePaymentFailed e now p w = Returned ?w2"
      using step by simp
    moreover have "failedPayments ?w2 = failedPayments w @ [?row]" "dunningLogs ?w2 = dunningLogs w"
      by simp_all
    ultimately show ?thesis
      using fields None by (intro exI [of _ ?w2] exI [of _ ?row]) simp
  next
    case (Some template)
    then have type: "tpl_type template = ''first_failure''"
      by (auto simp: find_Some_iff enabledFirstFailure_def)
    obtain payment where payment:
      "find (\<lambda>r. fp_id r = failedPayments_id_seq w) (failedPayments ?w2) = Some payment"
      "fp_id payment = failedPayments_id_seq w"
      using find_last_matching [of "\<lambda>r. fp_id r = failedPayments_id_seq w" ?row "failedPayments w"]
        fields(7) by auto
    have template: "find (enabledFirstFailure (u_id usr)) (emailTemplates ?w2) = Some template"
      using Some by simp
    let ?w3 = "?w2\<lparr>calls := calls ?w2 @
        [EmailsSend (fp_customerEmail payment) (tpl_subject template)
           (renderBody (tpl_body template)
              (interpolate (BASE_URL e) @ ''/payment/'' @ showInt (failedPayments_id_seq w))
              (fp_amount payment) (fp_customerEmail payment))],
      dunningLogs := dunningLogs ?w2 @
        [\<lparr>dl_id = dunningLogs_id_seq ?w2, dl_failedPaymentId = fp_id payment,
          dl_sentAt = Some now, dl_emailTemplate = tpl_type template,
          dl_status = Some ''sent''\<rparr>],
      dunningLogs_id_seq := dunningLogs_id_seq ?w2 + 1\<rparr>"
    have "handlePaymentFailed e now p w = Returned ?w3"
      unfolding step by (rule sendDunningEmail_template [OF payment(1) template])
    moreover have "failedPayments ?w3 = failedPayments w @ [?row]"
      by simp
    moreover have "dunningLogs ?w3 = dunningLogs w @
       [\<lparr>dl_id = dunningLogs_id_seq w, dl_failedPaymentId = fp_id ?row, dl_sentAt = Some now,
         dl_emailTemplate = ''first_failure'', dl_status = Some ''sent''\<rparr>]"
      using payment(2) fields(7) type by simp
    ultimately show ?thesis
      using fields Some by (intro exI [of _ ?w3] exI [of _ ?row]) simp
  qed
qed

theorem new_failure_creates_row_and_log_witness:
  "\<exists>w'. handlePaymentFailed processor 1000 intent store0 = Returned w' \<and>
     failedPayments w' = [tracked] \<and>
     fp_status tracked = Some ''failed'' \<and> fp_attemptCount tracked = Some 1 \<and>
     fp_nextRetryAt tracked = Some (1000 + 24 * 60 * 60 * 1000) \<and>
     dunningLogs w' =
       [\<lparr>dl_id = 1, dl_failedPaymentId = 1, dl_sentAt = Some 1000,
         dl_emailTemplate = ''first_failure'', dl_status = Some ''sent''\<rparr>]"
proof -
  have users: "users store0 = [acme]" and rows: "failedPayments store0 = []"
    and templates: "emailTemplates store0 = [firstFailure]"
    and seqs: "failedPayments_id_seq store0 = 1" "dunningLogs_id_seq store0 = 1"
    and logs: "dunningLogs store0 = []"
    by (simp_all add: store0_def)
  have fresh: "find (\<lambda>r. fp_stripePaymentIntentId r = pi_id intent) (failedPayments store0) = None"
    by (simp add: rows)
  obtain w' row where r: "handlePaymentFailed processor 1000 intent store0 = Returned w'"
    "failedPayments w' = failedPayments store0 @ [row]"
    "(if find (enabledFirstFailure (u_id acme)) (emailTemplates store0) = None
      then dunningLogs w' = dunningLogs store0
      else dunningLogs w' = dunningLogs store0 @
        [\<lparr>dl_id = dunningLogs_id_seq store0, dl_failedPaymentId = fp_id row, dl_sentAt = Some 1000,
          dl_emailTemplate = ''first_failure'', dl_status = Some ''sent''\<rparr>])"
    using new_failure_creates_row_and_log
      [OF intent_guards(1) intent_guards(2) [folded users] intent_guards(3,4) fresh
        intent_accepted, of 1000]
    by blast
  have "handlePaymentFailed processor 1000 intent store0 =
      sendDunningEmail processor 1000 (failedPayments_id_seq store0) (u_id acme)
        (store0\<lparr>calls := calls store0 @ retrieveCalls intent,
          failedPayments := failedPayments store0 @
            [newFailedPayment 1000 acme intent ''cus_1'' ''pat@shop.test'' (failedPayments_id_seq store0)],
          failedPayments_id_seq := failedPayments_id_seq store0 + 1\<rparr>)"
    by (rule handlePaymentFailed_new
        [OF intent_guards(1) intent_guards(2) [folded users] intent_guards(3,4) fresh
          intent_accepted])
  then have "failedPayments w' = [tracked]"
    using r(1) sendDunningEmail_frame
      [of processor 1000 "failedPayments_id_seq store0" "u_id acme"
        "store0\<lparr>calls := calls store0 @ retrieveCalls intent,
          failedPayments := failedPayments store0 @
            [newFailedPayment 1000 acme intent ''cus_1'' ''pat@shop.test'' (failedPayments_id_seq store0)],
          failedPayments_id_seq := failedPayments_id_seq store0 + 1\<rparr>"]
    by (auto simp: rows seqs intent_row)
  then have row: "row = tracked"
    using r(2) by (simp add: rows)
  have "find (enabledFirstFailure (u_id acme)) (emailTemplates store0) = Some firstFailure"
    by (simp add: templates acme_id firstFailure_enabled)
  then have "dunningLogs w' = dunningLogs store0 @
      [\<lparr>dl_id = dunningLogs_id_seq store0, dl_failedPaymentId = fp_id row, dl_sentAt = Some 1000,
        dl_emailTemplate = ''first_failure'', dl_status = Some ''sent''\<rparr>]"
    using r(3) by simp
  then have "dunningLogs w' =
      [\<lparr>dl_id = 1, dl_failedPaymentId = 1, dl_sentAt = Some 1000,
        dl_emailTemplate = ''first_failure'', dl_status = Some ''sent''\<rparr>]"
    by (simp add: row logs seqs tracked_def)
  moreover have "fp_status tracked = Some ''failed''" "fp_attemptCount tracked = Some 1"
    "fp_nextRetryAt tracked = Some (1000 + 24 * 60 * 60 * 1000)"
    by (simp_all add: tracked_def)
  ultimately show ?thesis
    using r(1) \<open>failedPayments w' = [tracked]\<close> by simp
qed

text \<open>
  Without the two conditions on the event the insert is refused: the event for an amount of
  3000000000 and the event of a guest (a receipt email and no customer) are untracked, their
  account resolves to a user and their email is resolvable, and the handler throws and leaves
  the tables as they were, with no row; the insert of the guest's row has drawn a key from
  the sequence.
\<close>

theorem refused_insert_creates_no_row:
  "users store0 = [acme] \<and> failedPayments store0 = [] \<and>
   u_stripeAccountId acme = pi_on_behalf_of bulkIntent \<and>
   resolveCustomerEmail processor bulkIntent = Inr (Some ''pat@shop.test'') \<and>
   handlePaymentFailed processor 1000 bulkIntent store0 = Threw (outOfRange 3000000000) store0 \<and>
   u_stripeAccountId acme = pi_on_behalf_of guestIntent \<and>
   resolveCustomerEmail processor guestIntent = Inr (Some ''pat@shop.test'') \<and>
   handlePaymentFailed processor 1000 guestIntent store0 =
     Threw notNullViolation (store0\<lparr>failedPayments_id_seq := 2\<rparr>) \<and>
   failedPayments (store0\<lparr>failedPayments_id_seq := 2\<rparr>) = []"
proof -
  have bulk: "truthy (pi_on_behalf_of bulkIntent)"
    "find (\<lambda>u. u_stripeAccountId u = pi_on_behalf_of bulkIntent) [acme] = Some acme"
    "resolveCustomerEmail processor bulkIntent = Inr (Some ''pat@shop.test'')"
    "retrieveCalls bulkIntent = []" "pi_amount bulkIntent = 3000000000"
    by (simp_all add: truthy_def bulkIntent_def intent_def acme_def resolveCustomerEmail_def
        retrieveNeeded_def retrieveCalls_def)
  have guest: "truthy (pi_on_behalf_of guestIntent)"
    "find (\<lambda>u. u_stripeAccountId u = pi_on_behalf_of guestIntent) [acme] = Some acme"
    "resolveCustomerEmail processor guestIntent = Inr (Some ''pat@shop.test'')"
    "retrieveCalls guestIntent = []" "pi_amount guestIntent = 4999"
    "pi_customer guestIntent = None"
    by (simp_all add: truthy_def guestIntent_def intent_def acme_def resolveCustomerEmail_def
        retrieveNeeded_def retrieveCalls_def)
  have accounts: "u_stripeAccountId acme = pi_on_behalf_of bulkIntent"
    "u_stripeAccountId acme = pi_on_behalf_of guestIntent"
    by (simp_all add: acme_def bulkIntent_def guestIntent_def intent_def)
  have same: "store0\<lparr>calls := []\<rparr> = store0"
    by (simp add: store0_def)
  have "handlePaymentFailed processor 1000 bulkIntent store0 =
      Threw (outOfRange 3000000000) store0"
    by (simp add: handlePaymentFailed_def bulk store0_facts int4_def same Let_def
        del: find.simps(2))
  moreover have "handlePaymentFailed processor 1000 guestIntent store0 =
      Threw notNullViolation (store0\<lparr>failedPayments_id_seq := 2\<rparr>)"
    by (simp add: handlePaymentFailed_def guest store0_facts int4_def same Let_def
        del: find.simps(2))
  ultimately show ?thesis
    using bulk(3) guest(3) accounts store0_facts(1,2) by simp
qed

text \<open>
  C3, as amended. A \<^verbatim>\<open>payment_intent.payment_failed\<close> event delivered again, for a payment
  intent that a row with attempt count 1 already tracks: the table keeps its length (no
  second row), the log and the emails sent are the same, and the only external call the
  handler can add is the fetch of the customer. When, at this delivery, the connected
  account resolves to a user and the customer email is resolvable, the attempt count of
  that row becomes 2 and every other row and field is as before; in every other case
  (the handler returns early, or the fetch of the customer throws) the table is the one
  before the delivery.
\<close>

theorem redelivery_increments_once:
  assumes "wellFormed w"
    and "existing \<in> set (failedPayments w)"
    and "fp_stripePaymentIntentId existing = pi_id p"
    and "fp_attemptCount existing = Some 1"
  shows "length (failedPayments (world_of (handlePaymentFailed e now p w))) =
      length (failedPayments w) \<and>
    failedPayments (world_of (handlePaymentFailed e now p w)) =
      (if truthy (pi_on_behalf_of p) \<and>
          (\<exists>usr. find (\<lambda>u. u_stripeAccountId u = pi_on_behalf_of p) (users w) = Some usr) \<and>
          (\<exists>email. resolveCustomerEmail e p = Inr (Some email) \<and> email \<noteq> [])
       then map (\<lambda>r. if r = existing then existing\<lparr>fp_attemptCount := Some 2\<rparr> else r)
              (failedPayments w)
       else failedPayments w) \<and>
    dunningLogs (world_of (handlePaymentFailed e now p w)) = dunningLogs w \<and>
    emailsSent (world_of (handlePaymentFailed e now p w)) = emailsSent w \<and>
    (calls (world_of (handlePaymentFailed e now p w)) = calls w \<or>
     calls (world_of (handlePaymentFailed e now p w)) = calls w @ retrieveCalls p)"
proof -
  have next2: "nextAttempt existing = 2" "int4 2"
    using assms(4) by (simp_all add: nextAttempt_def int4_def)
  have found: "find (\<lambda>r. fp_stripePaymentIntentId r = pi_id p) (failedPayments w) = Some existing"
    using find_by_intent [of "failedPayments w" existing] assms(1-3) by (simp add: wellFormed_def)
  have rows: "failedPayments (world_of (handlePaymentFailed e now p w)) =
      (if truthy (pi_on_behalf_of p) \<and>
          (\<exists>usr. find (\<lambda>u. u_stripeAccountId u = pi_on_behalf_of p) (users w) = Some usr) \<and>
          (\<exists>email. resolveCustomerEmail e p = Inr (Some email) \<and> email \<noteq> [])
       then map (\<lambda>r. if r = existing then existing\<lparr>fp_attemptCount := Some 2\<rparr> else r)
              (failedPayments w)
       else failedPayments w)"
  proof -
    have "failedPayments (world_of (handlePaymentFailed e now p w)) =
      (if truthy (pi_on_behalf_of p) \<and>
          (\<exists>usr. find (\<lambda>u. u_stripeAccountId u = pi_on_behalf_of p) (users w) = Some usr) \<and>
          (\<exists>email. resolveCustomerEmail e p = Inr (Some email) \<and> email \<noteq> []) \<and>
          int4 (nextAttempt existing)
       then map (\<lambda>r. if r = existing
                  then existing\<lparr>fp_attemptCount := Some (nextAttempt existing)\<rparr>
                  else r) (failedPayments w)
       else failedPayments w)"
      using tracked_outcome [OF assms(1-3), of e now] by blast
    then show ?thesis
      by (simp only: next2 simp_thms)
  qed
  have len: "length (failedPayments (world_of (handlePaymentFailed e now p w))) =
      length (failedPayments w)"
    unfolding rows by simp
  have quiet: "dunningLogs (world_of (handlePaymentFailed e now p w)) = dunningLogs w"
    "emailsSent (world_of (handlePaymentFailed e now p w)) = emailsSent w"
    using tracked_outcome [OF assms(1-3), of e now] by simp_all
  have "calls (world_of (handlePaymentFailed e now p w)) = calls w \<or>
     calls (world_of (handlePaymentFailed e now p w)) = calls w @ retrieveCalls p"
  proof (cases rule: handlePaymentFailed_cases [of p w e now])
    case (refused usr email msg)
    then show ?thesis using found by simp
  next
    case (new usr email customer)
    then show ?thesis using found by simp
  qed simp_all
  then show ?thesis
    using rows len quiet by blast
qed

theorem redelivery_increments_once_witness:
  "failedPayments (world_of (handlePaymentFailed processor 2000 intent store1)) =
     [tracked\<lparr>fp_attemptCount := Some 2\<rparr>] \<and>
   dunningLogs (world_of (handlePaymentFailed processor 2000 intent store1)) = dunningLogs store1 \<and>
   emailsSent (world_of (handlePaymentFailed processor 2000 intent store1)) = emailsSent store1"
proof -
  have wf: "wellFormed store1"
    by (simp add: wellFormed_def store1_def store0_def tracked_def)
  have mem: "tracked \<in> set (failedPayments store1)"
    by (simp add: store1_facts)
  have key: "fp_stripePaymentIntentId tracked = pi_id intent"
    by (simp add: tracked_facts intent_id)
  have guards: "truthy (pi_on_behalf_of intent) \<and>
      (\<exists>usr. find (\<lambda>u. u_stripeAccountId u = pi_on_behalf_of intent) (users store1) = Some usr) \<and>
      (\<exists>email. resolveCustomerEmail processor intent = Inr (Some email) \<and> email \<noteq> [])"
    using intent_guards by (simp add: store1_facts)
  note t = redelivery_increments_once [OF wf mem key tracked_facts(3), of processor 2000]
  have "failedPayments (world_of (handlePaymentFailed processor 2000 intent store1)) =
      (if truthy (pi_on_behalf_of intent) \<and>
          (\<exists>usr. find (\<lambda>u. u_stripeAccountId u = pi_on_behalf_of intent) (users store1) = Some usr) \<and>
          (\<exists>email. resolveCustomerEmail processor intent = Inr (Some email) \<and> email \<noteq> [])
       then map (\<lambda>r. if r = tracked then tracked\<lparr>fp_attemptCount := Some 2\<rparr> else r)
              (failedPayments store1)
       else failedPayments store1)"
    using t by blast
  then have "failedPayments (world_of (handlePaymentFailed processor 2000 intent store1)) =
      map (\<lambda>r. if r = tracked then tracked\<lparr>fp_attemptCount := Some 2\<rparr> else r)
        (failedPayments store1)"
    by (simp only: guards if_True simp_thms)
  then have "failedPayments (world_of (handlePaymentFailed processor 2000 intent store1)) =
      [tracked\<lparr>fp_attemptCount := Some 2\<rparr>]"
    by (simp add: store1_facts)
  then show ?thesis
    using t by blast
qed

text \<open>
  The increment is not unconditional. The event without a receipt email is delivered
  while the processor answers, and a row with attempt count 1 tracks it; the same event
  delivered again while the processor is unreachable makes the handler throw, and the row
  still has attempt count 1.
\<close>

theorem redelivery_with_processor_down_keeps_count:
  "failedPayments (world_of (handlePaymentFailed processor 1000 bareIntent store0)) = [tracked] \<and>
   fp_stripePaymentIntentId tracked = pi_id bareIntent \<and>
   fp_attemptCount tracked = Some 1 \<and>
   threw (handlePaymentFailed processorDown 2000 bareIntent
     (world_of (handlePaymentFailed processor 1000 bareIntent store0))) \<and>
   failedPayments (world_of (handlePaymentFailed processorDown 2000 bareIntent
     (world_of (handlePaymentFailed processor 1000 bareIntent store0)))) = [tracked]"
proof -
  define w1 where "w1 = world_of (handlePaymentFailed processor 1000 bareIntent store0)"
  have bare: "truthy (pi_on_behalf_of bareIntent)"
    "find (\<lambda>u. u_stripeAccountId u = pi_on_behalf_of bareIntent) [acme] = Some acme"
    "resolveCustomerEmail processor bareIntent = Inr (Some ''pat@shop.test'')"
    "''pat@shop.test'' \<noteq> []"
    "int4 (pi_amount bareIntent)" "pi_customer bareIntent = Some ''cus_1''"
    "resolveCustomerEmail processorDown bareIntent = Inl ''connection error''"
    "pi_id bareIntent = ''pi_1''"
    by (simp_all add: truthy_def bareIntent_def intent_def acme_def resolveCustomerEmail_def
        retrieveNeeded_def processor_def processorDown_def int4_def)
  have row: "newFailedPayment 1000 acme bareIntent ''cus_1'' ''pat@shop.test'' 1 = tracked"
    by (simp add: newFailedPayment_def tracked_def acme_def bareIntent_def intent_def
        failureReason_def)
  have fresh: "find (\<lambda>r. fp_stripePaymentIntentId r = pi_id bareIntent) (failedPayments store0) = None"
    by (simp add: store0_facts)
  let ?w2 = "store0\<lparr>calls := calls store0 @ retrieveCalls bareIntent,
      failedPayments := failedPayments store0 @
        [newFailedPayment 1000 acme bareIntent ''cus_1'' ''pat@shop.test''
           (failedPayments_id_seq store0)],
      failedPayments_id_seq := failedPayments_id_seq store0 + 1\<rparr>"
  have "handlePaymentFailed processor 1000 bareIntent store0 =
      sendDunningEmail processor 1000 (failedPayments_id_seq store0) (u_id acme) ?w2"
    by (rule handlePaymentFailed_new
        [OF bare(1) bare(2) [folded store0_facts(1)] bare(3,4) fresh bare(5,6)])
  moreover obtain cs ls n where
    "sendDunningEmail processor 1000 (failedPayments_id_seq store0) (u_id acme) ?w2 =
       Returned (?w2\<lparr>calls := cs, dunningLogs := ls, dunningLogs_id_seq := n\<rparr>)"
    using sendDunningEmail_frame by blast
  ultimately have rows1: "failedPayments w1 = [tracked]"
    by (simp add: w1_def store0_facts row)
  have users1: "users w1 = [acme]"
    using handlePaymentFailed_frame [of processor 1000 bareIntent store0]
    by (simp add: w1_def store0_facts)
  have second: "handlePaymentFailed processorDown 2000 bareIntent w1 =
      Threw ''connection error'' (w1\<lparr>calls := calls w1 @ retrieveCalls bareIntent\<rparr>)"
    by (simp add: handlePaymentFailed_def users1 bare Let_def del: find.simps(2))
  have "threw (handlePaymentFailed processorDown 2000 bareIntent w1)"
    "failedPayments (world_of (handlePaymentFailed processorDown 2000 bareIntent w1)) = [tracked]"
    unfolding second by (simp_all add: rows1)
  then show ?thesis
    using rows1 bare(8) unfolding w1_def by (simp add: tracked_facts)
qed

text \<open>
  C4. A \<^verbatim>\<open>payment_intent.succeeded\<close> event for a payment intent tracked by a row of status
  \<^verbatim>\<open>failed\<close>: the handler returns, that row has status \<^verbatim>\<open>recovered\<close> and is stamped with
  the time of the event, and nothing else in the world differs. The same event again, at any
  other time, returns the world as it found it: the status and the first stamp stay.
\<close>

theorem succeeded_recovers_once:
  assumes "wellFormed w"
    and "x \<in> set (failedPayments w)"
    and "fp_stripePaymentIntentId x = pi_id p"
    and "fp_status x = Some ''failed''"
  shows "\<exists>w'. handlePaymentSucceeded now p w = Returned w' \<and>
    w' = w\<lparr>failedPayments :=
          map (\<lambda>r. if r = x then x\<lparr>fp_status := Some ''recovered'', fp_recoveredAt := Some now\<rparr> else r)
            (failedPayments w)\<rparr> \<and>
    handlePaymentSucceeded later p w' = Returned w'"
proof -
  have found: "find (\<lambda>r. fp_stripePaymentIntentId r = pi_id p) (failedPayments w) = Some x"
    using find_by_intent [of "failedPayments w" x] assms(1-3) by (simp add: wellFormed_def)
  let ?w' = "w\<lparr>failedPayments := map (markRecovered now (fp_id x)) (failedPayments w)\<rparr>"
  have first: "handlePaymentSucceeded now p w = Returned ?w'"
    using found assms(4) by (simp add: handlePaymentSucceeded_def)
  have "find (\<lambda>r. fp_stripePaymentIntentId r = pi_id p) (failedPayments ?w') =
      Some (markRecovered now (fp_id x) x)"
    using found by (simp add: find_map_recovered)
  moreover have "fp_status (markRecovered now (fp_id x) x) \<noteq> Some ''failed''"
    by (simp add: markRecovered_def)
  ultimately have second: "handlePaymentSucceeded later p ?w' = Returned ?w'"
    by (simp add: handlePaymentSucceeded_def)
  have "map (markRecovered now (fp_id x)) (failedPayments w) =
      map (\<lambda>r. if r = x then x\<lparr>fp_status := Some ''recovered'', fp_recoveredAt := Some now\<rparr> else r)
        (failedPayments w)"
    using assms(1,2) by (intro recovered_only_target) (simp_all add: wellFormed_def)
  then show ?thesis
    using first second by simp
qed

theorem succeeded_recovers_once_witness:
  "\<exists>w'. handlePaymentSucceeded 3000 intent store1 = Returned w' \<and>
     w' = store1\<lparr>failedPayments :=
            [tracked\<lparr>fp_status := Some ''recovered'', fp_recoveredAt := Some 3000\<rparr>]\<rparr> \<and>
     handlePaymentSucceeded 4000 intent w' = Returned w'"
  using succeeded_recovers_once
    [where w = store1 and x = tracked and p = intent and now = 3000 and later = 4000]
  by (simp add: store1_def store0_def tracked_def intent_def wellFormed_def)

text \<open>
  C10, as amended. A \<^verbatim>\<open>payment_intent.payment_failed\<close> event for a payment intent whose
  row is recovered: whatever the handler does, the table has as many rows as before and
  every row keeps its status, so the intent has no row that is not recovered; the log and
  the emails sent are the old ones. The attempt count of the recovered row goes up by one,
  and nothing else in the table changes, when the event's connected account resolves to a
  user, a customer email is resolvable and the new count fits the 32-bit column; in every
  other case, whether the handler returns early or throws, the table is exactly the one
  before the event.
\<close>

theorem refailure_after_recovery:
  assumes "wellFormed w"
    and "existing \<in> set (failedPayments w)"
    and "fp_stripePaymentIntentId existing = pi_id p"
    and "fp_status existing = Some ''recovered''"
  shows "\<exists>w'. world_of (handlePaymentFailed e now p w) = w' \<and>
    length (failedPayments w') = length (failedPayments w) \<and>
    map fp_status (failedPayments w') = map fp_status (failedPayments w) \<and>
    openCount (pi_id p) w' = 0 \<and>
    dunningLogs w' = dunningLogs w \<and>
    emailsSent w' = emailsSent w \<and>
    failedPayments w' =
      (if truthy (pi_on_behalf_of p) \<and>
          (\<exists>usr. find (\<lambda>u. u_stripeAccountId u = pi_on_behalf_of p) (users w) = Some usr) \<and>
          (\<exists>email. resolveCustomerEmail e p = Inr (Some email) \<and> email \<noteq> []) \<and>
          int4 (nextAttempt existing)
       then map (\<lambda>r. if r = existing
                  then existing\<lparr>fp_attemptCount := Some (nextAttempt existing)\<rparr>
                  else r) (failedPayments w)
       else failedPayments w)"
proof -
  let ?w' = "world_of (handlePaymentFailed e now p w)"
  let ?bump = "\<lambda>r. if r = existing
      then existing\<lparr>fp_attemptCount := Some (nextAttempt existing)\<rparr> else r"
  note t = tracked_outcome [OF assms(1-3), of e now]
  have rows: "failedPayments ?w' =
      (if truthy (pi_on_behalf_of p) \<and>
          (\<exists>usr. find (\<lambda>u. u_stripeAccountId u = pi_on_behalf_of p) (users w) = Some usr) \<and>
          (\<exists>email. resolveCustomerEmail e p = Inr (Some email) \<and> email \<noteq> []) \<and>
          int4 (nextAttempt existing)
       then map ?bump (failedPayments w)
       else failedPayments w)"
    using t by blast
  have quiet: "dunningLogs ?w' = dunningLogs w" "emailsSent ?w' = emailsSent w"
    using t by blast+
  have either: "failedPayments ?w' = failedPayments w \<or>
      failedPayments ?w' = map ?bump (failedPayments w)"
    unfolding rows by simp
  have kept: "map fp_status (map ?bump (failedPayments w)) = map fp_status (failedPayments w)"
    by (induction "failedPayments w") auto
  have statuses: "map fp_status (failedPayments ?w') = map fp_status (failedPayments w)"
    using either kept by auto
  then have "length (map fp_status (failedPayments ?w')) = length (map fp_status (failedPayments w))"
    by simp
  then have len: "length (failedPayments ?w') = length (failedPayments w)"
    by simp
  have same_open: "openCount (pi_id p) ?w' = openCount (pi_id p) w"
  proof -
    have "map (\<lambda>r. (fp_stripePaymentIntentId r, fp_status r)) (map ?bump (failedPayments w)) =
        map (\<lambda>r. (fp_stripePaymentIntentId r, fp_status r)) (failedPayments w)"
      by (simp add: comp_def) 
    then have "map (\<lambda>r. (fp_stripePaymentIntentId r, fp_status r)) (failedPayments ?w') =
        map (\<lambda>r. (fp_stripePaymentIntentId r, fp_status r)) (failedPayments w)"
      using either by auto
    then have "length (filter (\<lambda>k. fst k = pi_id p \<and> snd k \<noteq> Some ''recovered'')
          (map (\<lambda>r. (fp_stripePaymentIntentId r, fp_status r)) (failedPayments ?w'))) =
        length (filter (\<lambda>k. fst k = pi_id p \<and> snd k \<noteq> Some ''recovered'')
          (map (\<lambda>r. (fp_stripePaymentIntentId r, fp_status r)) (failedPayments w)))"
      by simp
    then show ?thesis
      by (simp add: openCount_def filter_map comp_def)
  qed
  have "openCount (pi_id p) w = 0"
    using closed_intent_has_no_open_row [of w existing] assms by (simp add: wellFormed_def)
  then have closed: "openCount (pi_id p) ?w' = 0"
    using same_open by simp
  show ?thesis
    using len statuses closed quiet rows by blast
qed

theorem refailure_after_recovery_witness:
  "failedPayments (world_of (handlePaymentFailed processor 6000 intent storeRecovered)) =
     [tracked\<lparr>fp_status := Some ''recovered'', fp_recoveredAt := Some 5000,
        fp_attemptCount := Some 2\<rparr>] \<and>
   openCount (pi_id intent) (world_of (handlePaymentFailed processor 6000 intent storeRecovered)) = 0 \<and>
   dunningLogs (world_of (handlePaymentFailed processor 6000 intent storeRecovered)) =
     dunningLogs storeRecovered \<and>
   emailsSent (world_of (handlePaymentFailed processor 6000 intent storeRecovered)) =
     emailsSent storeRecovered"
proof -
  let ?row = "tracked\<lparr>fp_status := Some ''recovered'', fp_recoveredAt := Some 5000\<rparr>"
  have wf: "wellFormed storeRecovered"
    by (simp add: wellFormed_def storeRecovered_facts tracked_facts)
  have row: "?row \<in> set (failedPayments storeRecovered)"
    "fp_stripePaymentIntentId ?row = pi_id intent" "fp_status ?row = Some ''recovered''"
    by (simp_all add: storeRecovered_facts tracked_facts intent_id)
  have count: "nextAttempt ?row = 2"
    by (simp add: nextAttempt_def tracked_facts)
  have guards: "truthy (pi_on_behalf_of intent) \<and>
      (\<exists>usr. find (\<lambda>u. u_stripeAccountId u = pi_on_behalf_of intent) (users storeRecovered) = Some usr) \<and>
      (\<exists>email. resolveCustomerEmail processor intent = Inr (Some email) \<and> email \<noteq> []) \<and>
      int4 (nextAttempt ?row)"
    using intent_guards by (simp add: storeRecovered_facts count int4_def)
  note t = refailure_after_recovery [OF wf row, of processor 6000]
  have "failedPayments (world_of (handlePaymentFailed processor 6000 intent storeRecovered)) =
      (if truthy (pi_on_behalf_of intent) \<and>
          (\<exists>usr. find (\<lambda>u. u_stripeAccountId u = pi_on_behalf_of intent) (users storeRecovered) = Some usr) \<and>
          (\<exists>email. resolveCustomerEmail processor intent = Inr (Some email) \<and> email \<noteq> []) \<and>
          int4 (nextAttempt ?row)
       then map (\<lambda>r. if r = ?row then ?row\<lparr>fp_attemptCount := Some (nextAttempt ?row)\<rparr> else r)
              (failedPayments storeRecovered)
       else failedPayments storeRecovered)"
    using t by blast
  then have "failedPayments (world_of (handlePaymentFailed processor 6000 intent storeRecovered)) =
      map (\<lambda>r. if r = ?row then ?row\<lparr>fp_attemptCount := Some (nextAttempt ?row)\<rparr> else r)
        (failedPayments storeRecovered)"
    by (simp only: guards if_True simp_thms)
  then have "failedPayments (world_of (handlePaymentFailed processor 6000 intent storeRecovered)) =
     [tracked\<lparr>fp_status := Some ''recovered'', fp_recoveredAt := Some 5000,
        fp_attemptCount := Some 2\<rparr>]"
    by (simp add: storeRecovered_facts count)
  then show ?thesis
    using t by blast
qed

text \<open>
  The increment is not unconditional: an event on behalf of an account that no user has
  connected matches the recovered row and leaves its attempt count at 1.
\<close>

theorem refailure_of_unknown_account_is_skipped:
  "failedPayments storeRecovered =
     [tracked\<lparr>fp_status := Some ''recovered'', fp_recoveredAt := Some 5000\<rparr>] \<and>
   fp_stripePaymentIntentId tracked = pi_id strayIntent \<and>
   fp_attemptCount tracked = Some 1 \<and>
   handlePaymentFailed processor 6000 strayIntent storeRecovered = Returned storeRecovered"
  by (simp add: storeRecovered_facts tracked_facts strayIntent_def intent_def
      handlePaymentFailed_def truthy_def acme_def)

section \<open>The notifier\<close>

text \<open>
  C8. A user who has no enabled \<^verbatim>\<open>first_failure\<close> template. Every failed payment that the
  handler newly creates for that user is created quietly: the handler returns with the row
  in the table, the log and the emails sent are the old ones, and the notifier, called for
  that payment, returns the world as it is. And the row is still created: for every event
  of that user that reaches the insert with values that fit the columns, the table after
  the event is the old one followed by the new row.
\<close>

theorem no_template_no_notification:
  assumes "find (enabledFirstFailure userId) (emailTemplates w) = None"
  shows "(\<forall>row.
      failedPayments (world_of (handlePaymentFailed e now p w)) = failedPayments w @ [row] \<and>
      fp_userId row = userId \<longrightarrow>
      (\<exists>w'. handlePaymentFailed e now p w = Returned w' \<and>
         failedPayments w' = failedPayments w @ [row] \<and>
         fp_stripePaymentIntentId row = pi_id p \<and>
         dunningLogs w' = dunningLogs w \<and>
         emailsSent w' = emailsSent w \<and>
         sendDunningEmail e now (fp_id row) userId w' = Returned w')) \<and>
    (\<forall>usr email customer.
      truthy (pi_on_behalf_of p) \<and>
      find (\<lambda>u. u_stripeAccountId u = pi_on_behalf_of p) (users w) = Some usr \<and>
      u_id usr = userId \<and>
      resolveCustomerEmail e p = Inr (Some email) \<and> email \<noteq> [] \<and>
      find (\<lambda>r. fp_stripePaymentIntentId r = pi_id p) (failedPayments w) = None \<and>
      int4 (pi_amount p) \<and> pi_customer p = Some customer \<longrightarrow>
      failedPayments (world_of (handlePaymentFailed e now p w)) =
        failedPayments w @ [newFailedPayment now usr p customer email (failedPayments_id_seq w)])"
proof (intro conjI allI impI; (elim conjE)?)
  fix row
  assume created:
    "failedPayments (world_of (handlePaymentFailed e now p w)) = failedPayments w @ [row]"
    and owner: "fp_userId row = userId"
  show "\<exists>w'. handlePaymentFailed e now p w = Returned w' \<and>
         failedPayments w' = failedPayments w @ [row] \<and>
         fp_stripePaymentIntentId row = pi_id p \<and>
         dunningLogs w' = dunningLogs w \<and>
         emailsSent w' = emailsSent w \<and>
         sendDunningEmail e now (fp_id row) userId w' = Returned w'"
  proof (cases rule: handlePaymentFailed_cases [of p w e now])
    case (existing usr email ex)
    then have "length (failedPayments (world_of (handlePaymentFailed e now p w))) =
        length (failedPayments w)"
      by simp
    then show ?thesis
      unfolding created by simp
  next
    case (new usr email customer)
    let ?row = "newFailedPayment now usr p customer email (failedPayments_id_seq w)"
    let ?w2 = "w\<lparr>calls := calls w @ retrieveCalls p,
        failedPayments := failedPayments w @ [?row],
        failedPayments_id_seq := failedPayments_id_seq w + 1\<rparr>"
    obtain cs ls n where
      "sendDunningEmail e now (failedPayments_id_seq w) (u_id usr) ?w2 =
         Returned (?w2\<lparr>calls := cs, dunningLogs := ls, dunningLogs_id_seq := n\<rparr>)"
      using sendDunningEmail_frame by blast
    then have "failedPayments (world_of (handlePaymentFailed e now p w)) =
        failedPayments w @ [?row]"
      using new(8) by simp
    then have row: "row = ?row"
      using created by simp
    have fields: "fp_id row = failedPayments_id_seq w" "u_id usr = userId"
      "fp_stripePaymentIntentId row = pi_id p"
      using owner unfolding row by (simp_all add: newFailedPayment_def)
    have none: "find (enabledFirstFailure (u_id usr)) (emailTemplates ?w2) = None"
      using assms fields(2) by simp
    have notifier: "sendDunningEmail e now (failedPayments_id_seq w) (u_id usr) ?w2 = Returned ?w2"
      using none by (rule sendDunningEmail_no_template)
    have returned: "handlePaymentFailed e now p w = Returned ?w2"
      using new(8) notifier by simp
    have sent: "emailsSent ?w2 = emailsSent w"
      by (simp add: emailsSent_def isEmail_retrieveCalls)
    have rows: "failedPayments ?w2 = failedPayments w @ [row]" "dunningLogs ?w2 = dunningLogs w"
      unfolding row by simp_all
    have "sendDunningEmail e now (fp_id row) userId ?w2 = Returned ?w2"
      using notifier by (simp only: fields)
    then show ?thesis
      using returned rows sent fields(3) by blast
  qed (use created in simp_all)
next
  fix usr email customer
  assume guards: "truthy (pi_on_behalf_of p)"
    "find (\<lambda>u. u_stripeAccountId u = pi_on_behalf_of p) (users w) = Some usr"
    "resolveCustomerEmail e p = Inr (Some email)" "email \<noteq> []"
    "find (\<lambda>r. fp_stripePaymentIntentId r = pi_id p) (failedPayments w) = None"
    "int4 (pi_amount p)" "pi_customer p = Some customer"
    and owner: "u_id usr = userId"
  let ?w2 = "w\<lparr>calls := calls w @ retrieveCalls p,
      failedPayments := failedPayments w @
        [newFailedPayment now usr p customer email (failedPayments_id_seq w)],
      failedPayments_id_seq := failedPayments_id_seq w + 1\<rparr>"
  have "find (enabledFirstFailure (u_id usr)) (emailTemplates ?w2) = None"
    using assms owner by simp
  then have "sendDunningEmail e now (failedPayments_id_seq w) (u_id usr) ?w2 = Returned ?w2"
    by (rule sendDunningEmail_no_template)
  then have "handlePaymentFailed e now p w = Returned ?w2"
    using handlePaymentFailed_new [OF guards, of now] by simp
  then show "failedPayments (world_of (handlePaymentFailed e now p w)) =
      failedPayments w @ [newFailedPayment now usr p customer email (failedPayments_id_seq w)]"
    by simp
qed

theorem no_template_no_notification_witness:
  "\<exists>w'. handlePaymentFailed processor 1000 intent (store0\<lparr>emailTemplates := []\<rparr>) = Returned w' \<and>
     failedPayments w' = [tracked] \<and> dunningLogs w' = [] \<and> emailsSent w' = [] \<and>
     sendDunningEmail processor 1000 1 7 w' = Returned w'"
proof -
  let ?w = "store0\<lparr>emailTemplates := []\<rparr>"
  have state: "users ?w = [acme]" "failedPayments ?w = []" "emailTemplates ?w = []"
    "dunningLogs ?w = []" "failedPayments_id_seq ?w = 1" "emailsSent ?w = []"
    by (simp_all add: store0_def emailsSent_def)
  have fresh: "find (\<lambda>r. fp_stripePaymentIntentId r = pi_id intent) (failedPayments ?w) = None"
    by (simp add: state)
  have none: "find (enabledFirstFailure 7) (emailTemplates ?w) = None"
    by simp
  note t = no_template_no_notification [OF none, of processor 1000 intent]
  have "failedPayments (world_of (handlePaymentFailed processor 1000 intent ?w)) =
      failedPayments ?w @
        [newFailedPayment 1000 acme intent ''cus_1'' ''pat@shop.test'' (failedPayments_id_seq ?w)]"
    using t intent_guards(1) intent_guards(2) [folded state(1)] intent_guards(3,4) fresh
      intent_accepted acme_id
    by blast
  then have created:
    "failedPayments (world_of (handlePaymentFailed processor 1000 intent ?w)) =
       failedPayments ?w @ [tracked]"
    by (simp only: state intent_row)
  have ids: "fp_id tracked = 1" "fp_userId tracked = 7"
    by (simp_all add: tracked_def)
  obtain w' where r: "handlePaymentFailed processor 1000 intent ?w = Returned w'"
    "failedPayments w' = failedPayments ?w @ [tracked]"
    "dunningLogs w' = dunningLogs ?w" "emailsSent w' = emailsSent ?w"
    "sendDunningEmail processor 1000 (fp_id tracked) 7 w' = Returned w'"
    using t created ids(2) by blast
  have "failedPayments w' = [tracked]" "dunningLogs w' = []" "emailsSent w' = []"
    "sendDunningEmail processor 1000 1 7 w' = Returned w'"
    using r(2-5) by (simp_all only: state ids append_Nil)
  then show ?thesis
    using r(1) by blast
qed

lemma scaleUp_4999: "scaleUp 4999 100 0 = 47"
  by (simp add: scaleUp.simps)

lemma divide_number_4999: "divide_number 4999 100 = Number 7035467042882847 47"
  by (simp add: divide_number_def scaleUp_4999 roundHalfEven_def)

lemma showNat_4999: "showNat 4999 = ''4999''"
  by (simp add: showNat.simps)

lemma toFixed2_4999: "toFixed2 (Number 7035467042882847 47) = ''49.99''"
  by (simp add: toFixed2_def showNat_4999)

lemma amountText_4999: "amountText 4999 = ''$49.99''"
  by (simp add: amountText_def divide_number_4999 toFixed2_4999)

text \<open>
  One pass of \<^verbatim>\<open>replace\<close> over a text: where the first character of the pattern does not
  occur, nothing matches; a single occurrence of the pattern between two such texts is the
  single match.
\<close>

lemma replaceFrom_skip:
  "k \<le> length s \<Longrightarrow>
   replaceFrom pat repl whole pos k s = replaceFrom pat repl whole (pos + k) 0 (drop k s)"
proof (induction s arbitrary: k pos)
  case Nil
  then show ?case by simp
next
  case (Cons c cs)
  show ?case
  proof (cases k)
    case 0
    then show ?thesis by simp
  next
    case (Suc j)
    then have "j \<le> length cs"
      using Cons.prems by simp
    then show ?thesis
      using Cons.IH [of j "Suc pos"] Suc by simp
  qed
qed

lemma take_is_pattern:
  assumes "pat \<noteq> []" and "take (length pat) (c # cs) = pat"
  shows "hd pat = c"
proof -
  obtain x xs where "pat = x # xs"
    using assms(1) by (cases pat) auto
  then show ?thesis
    using assms(2) by simp
qed

lemma replaceFrom_no_match:
  "pat \<noteq> [] \<Longrightarrow> hd pat \<notin> set s \<Longrightarrow> replaceFrom pat repl whole pos 0 s = s"
proof (induction s arbitrary: pos)
  case Nil
  then show ?case by simp
next
  case (Cons c cs)
  have "take (length pat) (c # cs) \<noteq> pat"
    using take_is_pattern [OF Cons.prems(1)] Cons.prems(2) by auto
  then show ?case
    using Cons by simp
qed

lemma replaceFrom_prefix_no_match:
  "pat \<noteq> [] \<Longrightarrow> hd pat \<notin> set pre \<Longrightarrow>
   replaceFrom pat repl whole pos 0 (pre @ s) =
     pre @ replaceFrom pat repl whole (pos + length pre) 0 s"
proof (induction pre arbitrary: pos)
  case Nil
  then show ?case by simp
next
  case (Cons c cs)
  have "take (length pat) (c # cs @ s) \<noteq> pat"
    using take_is_pattern [OF Cons.prems(1), of c "cs @ s"] Cons.prems(2) by auto
  then show ?case
    using Cons by simp
qed

lemma replaceFrom_one_match:
  assumes "pat \<noteq> []" and "hd pat \<notin> set pre" and "hd pat \<notin> set post"
  shows "replaceFrom pat repl whole pos 0 (pre @ pat @ post) =
    pre @ getSubstitution pat (take (pos + length pre) whole)
            (drop (pos + length pre + length pat) whole) repl @ post"
  using assms(2)
proof (induction pre arbitrary: pos)
  case Nil
  obtain x xs where pat: "pat = x # xs"
    using assms(1) by (cases pat) auto
  have "replaceFrom pat repl whole (Suc pos) (length xs) (xs @ post) =
      replaceFrom pat repl whole (Suc pos + length xs) 0 (drop (length xs) (xs @ post))"
    by (rule replaceFrom_skip) simp
  also have "\<dots> = post"
    using replaceFrom_no_match [OF assms(1) assms(3)] by simp
  finally show ?case
    by (simp add: pat)
next
  case (Cons c cs)
  have "take (length pat) (c # cs @ pat @ post) \<noteq> pat"
    using take_is_pattern [OF assms(1), of c "cs @ pat @ post"] Cons.prems by auto
  then show ?case
    using Cons by simp
qed

lemma replace_g_one_match:
  assumes "pat \<noteq> []" and "hd pat \<notin> set pre" and "hd pat \<notin> set post"
  shows "replace_g pat repl (pre @ pat @ post) = pre @ getSubstitution pat pre post repl @ post"
  using replaceFrom_one_match [OF assms, of repl "pre @ pat @ post" 0]
  by (simp add: replace_g_def)

lemma replace_g_no_match:
  "pat \<noteq> [] \<Longrightarrow> hd pat \<notin> set s \<Longrightarrow> replace_g pat repl s = s"
  by (simp add: replace_g_def replaceFrom_no_match)

lemma updateLink_not_at_amount:
  assumes "CHR ''{'' \<notin> set post"
  shows "replaceFrom ''{{updateLink}}'' repl whole pos 0 (''{{amount}}'' @ post) = ''{{amount}}'' @ post"
proof -
  have "replaceFrom ''{{updateLink}}'' repl whole (pos + 10) 0 post = post"
    using assms by (intro replaceFrom_no_match) simp_all
  then show ?thesis
    by (simp add: numeral_eq_Suc add.commute)
qed

lemma renderBody_amount_4999_general:
  assumes "CHR ''{'' \<notin> set pre" and "CHR ''{'' \<notin> set post"
  shows "renderBody (pre @ ''{{amount}}'' @ post) link 4999 email = pre @ ''$49.99'' @ post"
proof -
  have "replaceFrom ''{{updateLink}}'' link (pre @ ''{{amount}}'' @ post) 0 0
        (pre @ ''{{amount}}'' @ post) =
      pre @ replaceFrom ''{{updateLink}}'' link (pre @ ''{{amount}}'' @ post) (0 + length pre) 0
        (''{{amount}}'' @ post)"
    using assms(1) by (intro replaceFrom_prefix_no_match) simp_all
  then have link: "replace_g ''{{updateLink}}'' link (pre @ ''{{amount}}'' @ post) =
      pre @ ''{{amount}}'' @ post"
    using updateLink_not_at_amount [OF assms(2)] by (simp add: replace_g_def)
  have "replace_g ''{{amount}}'' ''$49.99'' (pre @ ''{{amount}}'' @ post) =
      pre @ getSubstitution ''{{amount}}'' pre post ''$49.99'' @ post"
    using assms by (intro replace_g_one_match) simp_all
  then have amount: "replace_g ''{{amount}}'' (amountText 4999) (pre @ ''{{amount}}'' @ post) =
      pre @ ''$49.99'' @ post"
    by (simp add: amountText_4999)
  have email: "replace_g ''{{customerEmail}}'' email (pre @ ''$49.99'' @ post) =
      pre @ ''$49.99'' @ post"
    using assms by (intro replace_g_no_match) simp_all
  show ?thesis
    by (simp only: renderBody_def link amount email)
qed

text \<open>
  C9. A failed payment of 4999 minor units in \<^verbatim>\<open>usd\<close>: the text that the notifier puts in
  the place of the amount token is exactly \<^verbatim>\<open>$49.99\<close>. A template body that holds the
  token once, between two texts without a brace, is sent with \<^verbatim>\<open>$49.99\<close> in the place of
  the token and is otherwise unchanged. The quotient 4999 / 100 is not 49.99 but the double
  next to it, 7035467042882847 / 2^47; \<^verbatim>\<open>toFixed(2)\<close> rounds it back. The dollar sign
  is the code's for every currency.
\<close>

theorem amount_placeholder_4999_usd:
  assumes "find (\<lambda>r. fp_id r = i) (failedPayments w) = Some payment"
    and "fp_amount payment = 4999"
    and "fp_currency payment = ''usd''"
    and "find (enabledFirstFailure userId) (emailTemplates w) = Some template"
    and "tpl_body template = pre @ ''{{amount}}'' @ post"
    and "CHR ''{'' \<notin> set pre"
    and "CHR ''{'' \<notin> set post"
  shows "amountText (fp_amount payment) = ''$49.99'' \<and>
    (\<exists>w'. sendDunningEmail e now i userId w = Returned w' \<and>
       calls w' = calls w @
         [EmailsSend (fp_customerEmail payment) (tpl_subject template)
            (pre @ ''$49.99'' @ post)])"
proof -
  have shown: "amountText (fp_amount payment) = ''$49.99''"
    by (simp add: assms(2) amountText_4999)
  have "renderBody (tpl_body template)
      (interpolate (BASE_URL e) @ ''/payment/'' @ showInt i)
      (fp_amount payment) (fp_customerEmail payment) = pre @ ''$49.99'' @ post"
    unfolding assms(2) assms(5) using assms(6,7) by (rule renderBody_amount_4999_general)
  then have "sendDunningEmail e now i userId w =
    Returned (w\<lparr>calls := calls w @
        [EmailsSend (fp_customerEmail payment) (tpl_subject template) (pre @ ''$49.99'' @ post)],
      dunningLogs := dunningLogs w @
        [\<lparr>dl_id = dunningLogs_id_seq w, dl_failedPaymentId = fp_id payment,
          dl_sentAt = Some now, dl_emailTemplate = tpl_type template,
          dl_status = Some ''sent''\<rparr>],
      dunningLogs_id_seq := dunningLogs_id_seq w + 1\<rparr>)"
    by (simp only: sendDunningEmail_template [OF assms(1) assms(4)])
  then show ?thesis
    using shown by simp
qed

theorem amount_placeholder_4999_usd_witness:
  "amountText (fp_amount tracked) = ''$49.99'' \<and>
   (\<exists>w'. sendDunningEmail processor 2000 1 7 store1 = Returned w' \<and>
      calls w' = [EmailsSend ''pat@shop.test'' ''Payment failed'' ''Pay $49.99 now''])"
proof -
  have payment: "find (\<lambda>r. fp_id r = 1) (failedPayments store1) = Some tracked"
    and amount: "fp_amount tracked = 4999" and currency: "fp_currency tracked = ''usd''"
    and template: "find (enabledFirstFailure 7) (emailTemplates store1) = Some firstFailure"
    and body: "tpl_body firstFailure = ''Pay '' @ ''{{amount}}'' @ '' now''"
    and braces: "CHR ''{'' \<notin> set ''Pay ''" "CHR ''{'' \<notin> set '' now''"
    by (simp_all add: store1_def store0_def tracked_def firstFailure_def enabledFirstFailure_def)
  show ?thesis
    using amount_placeholder_4999_usd [OF payment amount currency template body braces,
        of processor 2000]
    by (simp add: store1_def store0_def tracked_def firstFailure_def)
qed

section \<open>The webhook route\<close>

text \<open>
  C5. A webhook request without a signature header, with an empty one, or with one that the
  signature check refuses: the answer is the client error 400 and the world is the one
  before the request, so no row of any table is written and no external call is made.
\<close>

theorem webhook_rejects_bad_signature:
  assumes "stripe_signature req = None \<or> stripe_signature req = Some [] \<or>
    (\<exists>sig secret msg. stripe_signature req = Some sig \<and>
       STRIPE_WEBHOOK_SECRET e = Some secret \<and>
       constructEvent e (raw_body req) sig secret = Inl msg)"
  shows "res_status (fst (webhook e now req w)) = 400 \<and> snd (webhook e now req w) = w"
  using assms
  by (auto simp: webhook_def split: option.splits)

theorem webhook_rejects_bad_signature_witness:
  "res_status (fst (webhook processor 2000
      \<lparr>stripe_signature = Some ''forged'', raw_body = ''payment_intent.succeeded''\<rparr> store1)) = 400 \<and>
   snd (webhook processor 2000
      \<lparr>stripe_signature = Some ''forged'', raw_body = ''payment_intent.succeeded''\<rparr> store1) = store1"
  using webhook_rejects_bad_signature
    [where req = "\<lparr>stripe_signature = Some ''forged'', raw_body = ''payment_intent.succeeded''\<rparr>"
       and e = processor and now = 2000 and w = store1]
  by (simp add: processor_def)

text \<open>
  C6, as amended. A webhook request whose signature is accepted is answered 200 with
  \<^verbatim>\<open>{received: true}\<close> exactly when the processing of its event does not throw; when the
  processing throws, the \<^verbatim>\<open>catch\<close> of the route answers 500 with the message of the
  error. The answer is 200 for every event of a type that the route does not handle and
  for every failure event that the handler skips (no connected account, no user for the
  account, no customer email). It is 500 for a failure event of a connected account when
  fetching its customer from the processor throws.
\<close>

theorem verified_webhook_status:
  assumes "stripe_signature req = Some sig" and "sig \<noteq> []"
    and "STRIPE_WEBHOOK_SECRET e = Some secret" and "secret \<noteq> []"
    and "constructEvent e (raw_body req) sig secret = Inr ev"
  shows "fst (webhook e now req w) =
      (case dispatch e now ev w of
         Returned w' \<Rightarrow> \<lparr>res_status = 200, res_body = Json_received\<rparr>
       | Threw msg w' \<Rightarrow> \<lparr>res_status = 500, res_body = Text (''Error: '' @ msg)\<rparr>) \<and>
    (res_status (fst (webhook e now req w)) = 200 \<longleftrightarrow> \<not> threw (dispatch e now ev w)) \<and>
    (res_status (fst (webhook e now req w)) = 500 \<longleftrightarrow> threw (dispatch e now ev w)) \<and>
    (ev_type ev \<noteq> ''payment_intent.payment_failed'' \<and> ev_type ev \<noteq> ''payment_intent.succeeded'' \<or>
     ev_type ev = ''payment_intent.payment_failed'' \<and>
       (\<not> truthy (pi_on_behalf_of (ev_object ev)) \<or>
        find (\<lambda>u. u_stripeAccountId u = pi_on_behalf_of (ev_object ev)) (users w) = None \<or>
        resolveCustomerEmail e (ev_object ev) = Inr None \<or>
        resolveCustomerEmail e (ev_object ev) = Inr (Some [])) \<longrightarrow>
     fst (webhook e now req w) = \<lparr>res_status = 200, res_body = Json_received\<rparr>) \<and>
    (\<forall>msg. ev_type ev = ''payment_intent.payment_failed'' \<and>
       truthy (pi_on_behalf_of (ev_object ev)) \<and>
       (\<exists>usr. find (\<lambda>u. u_stripeAccountId u = pi_on_behalf_of (ev_object ev)) (users w) = Some usr) \<and>
       resolveCustomerEmail e (ev_object ev) = Inl msg \<longrightarrow>
       fst (webhook e now req w) = \<lparr>res_status = 500, res_body = Text (''Error: '' @ msg)\<rparr>)"
proof -
  let ?p = "ev_object ev"
  have answer: "fst (webhook e now req w) =
      (case dispatch e now ev w of
         Returned w' \<Rightarrow> \<lparr>res_status = 200, res_body = Json_received\<rparr>
       | Threw msg w' \<Rightarrow> \<lparr>res_status = 500, res_body = Text (''Error: '' @ msg)\<rparr>)"
    unfolding webhook_verified [OF assms] by (cases "dispatch e now ev w") simp_all
  have ok: "res_status (fst (webhook e now req w)) = 200 \<longleftrightarrow> \<not> threw (dispatch e now ev w)"
    unfolding answer by (cases "dispatch e now ev w") simp_all
  have ko: "res_status (fst (webhook e now req w)) = 500 \<longleftrightarrow> threw (dispatch e now ev w)"
    unfolding answer by (cases "dispatch e now ev w") simp_all
  have other: "fst (webhook e now req w) = \<lparr>res_status = 200, res_body = Json_received\<rparr>"
    if "ev_type ev \<noteq> ''payment_intent.payment_failed''"
      and "ev_type ev \<noteq> ''payment_intent.succeeded''"
    unfolding answer using that by (simp add: dispatch_def)
  have skipped: "fst (webhook e now req w) = \<lparr>res_status = 200, res_body = Json_received\<rparr>"
    if failed: "ev_type ev = ''payment_intent.payment_failed''"
      and skip: "\<not> truthy (pi_on_behalf_of ?p) \<or>
        find (\<lambda>u. u_stripeAccountId u = pi_on_behalf_of ?p) (users w) = None \<or>
        resolveCustomerEmail e ?p = Inr None \<or>
        resolveCustomerEmail e ?p = Inr (Some [])"
  proof -
    have "\<exists>w'. handlePaymentFailed e now ?p w = Returned w'"
    proof (cases rule: handlePaymentFailed_cases [of ?p w e now])
      case (throws usr msg)
      then show ?thesis using skip by simp
    next
      case (existing usr email ex)
      then show ?thesis using skip by simp
    next
      case (overflow usr email ex)
      then show ?thesis using skip by simp
    next
      case (refused usr email msg)
      then show ?thesis using skip by simp
    next
      case (new usr email customer)
      then show ?thesis using skip by simp
    qed simp_all
    then show ?thesis
      unfolding answer using failed by (auto simp: dispatch_def)
  qed
  have surfaced: "fst (webhook e now req w) = \<lparr>res_status = 500, res_body = Text (''Error: '' @ msg)\<rparr>"
    if "ev_type ev = ''payment_intent.payment_failed''"
      and "truthy (pi_on_behalf_of ?p)"
      and "find (\<lambda>u. u_stripeAccountId u = pi_on_behalf_of ?p) (users w) = Some usr"
      and "resolveCustomerEmail e ?p = Inl msg"
    for msg usr
    unfolding answer using that by (simp add: dispatch_def handlePaymentFailed_def Let_def)
  show ?thesis
    using answer ok ko other skipped surfaced by blast
qed

text \<open>An instance: an event of a type that the route does not handle is acknowledged.\<close>

theorem verified_webhook_status_witness:
  "fst (webhook processor 1000
      \<lparr>stripe_signature = Some ''good'', raw_body = ''charge.refunded''\<rparr> store1) =
     \<lparr>res_status = 200, res_body = Json_received\<rparr>"
proof -
  let ?req = "\<lparr>stripe_signature = Some ''good'', raw_body = ''charge.refunded''\<rparr>"
  let ?ev = "\<lparr>ev_type = ''charge.refunded'', ev_object = bareIntent\<rparr>"
  have sig: "stripe_signature ?req = Some ''good''" "''good'' \<noteq> []"
    and secret: "STRIPE_WEBHOOK_SECRET processor = Some ''whsec''" "''whsec'' \<noteq> []"
    and ev: "constructEvent processor (raw_body ?req) ''good'' ''whsec'' = Inr ?ev"
    by (simp_all add: processor_def)
  have other: "ev_type ?ev \<noteq> ''payment_intent.payment_failed''"
    "ev_type ?ev \<noteq> ''payment_intent.succeeded''"
    by simp_all
  show ?thesis
    using verified_webhook_status [OF sig secret ev, of 1000 store1] other by blast
qed

text \<open>
  The error is not swallowed: with the processor's API unreachable, a failure event without
  a receipt email, its signature accepted, is answered 500.
\<close>

theorem processing_error_is_surfaced:
  "constructEvent processorDown ''payment_intent.payment_failed'' ''good'' ''whsec'' =
     Inr \<lparr>ev_type = ''payment_intent.payment_failed'', ev_object = bareIntent\<rparr> \<and>
   fst (webhook processorDown 1000
      \<lparr>stripe_signature = Some ''good'', raw_body = ''payment_intent.payment_failed''\<rparr> store0) =
     \<lparr>res_status = 500, res_body = Text ''Error: connection error''\<rparr>"
  by (simp add: webhook_def dispatch_def handlePaymentFailed_def resolveCustomerEmail_def
      retrieveNeeded_def retrieveCalls_def truthy_def processorDown_def processor_def
      bareIntent_def intent_def store0_def acme_def)

section \<open>The recovery endpoint\<close>

text \<open>
  C7 describes an idempotent endpoint; the code is not. The update of the route is not
  guarded by the status, as the one of \<^verbatim>\<open>handlePaymentSucceeded\<close> is: a second call for a
  record recovered at time 5000, made at time 9000 with a processor that accepts both of its
  calls, is answered 200 and stamps the record again, with 9000.
\<close>

theorem second_recovery_call_restamps:
  "fp_recoveredAt (hd (failedPayments storeRecovered)) = Some 5000 \<and>
   paymentUpdate processor 9000 1 ''pm_2'' storeRecovered =
     (\<lparr>res_status = 200, res_body = Json_success\<rparr>,
      storeRecovered\<lparr>
        failedPayments := [tracked\<lparr>fp_status := Some ''recovered'', fp_recoveredAt := Some 9000\<rparr>],
        calls := [CustomersUpdate ''cus_1'' ''pm_2'', PaymentIntentsConfirm ''pi_1'']\<rparr>)"
  by (simp add: paymentUpdate_def markRecovered_def storeRecovered_def store0_def tracked_def
      processor_def)

end
